theory Spec2Isabelle
  imports Complex_Main
begin

section \<open>Numbers\<close>

text \<open>
  The program computes with JavaScript numbers. They are modelled as mathematical reals
  (rounding is not modelled). The single place where the program can divide by a
  variable that may be zero is the average in \<open>getFlowMultiplier\<close>; there the IEEE
  special values are modelled explicitly by the type \<open>jsnum\<close>.
\<close>

datatype jsnum = Num real | PosInfinity | NegInfinity | NaN

text \<open>\<open>a / b\<close> on finite operands: \<open>0 / 0\<close> is NaN, \<open>a / 0\<close> an infinity.\<close>

definition js_div :: "real \<Rightarrow> real \<Rightarrow> jsnum" where
  "js_div a b =
     (if b = 0 then (if a = 0 then NaN else if a > 0 then PosInfinity else NegInfinity)
      else Num (a / b))"

text \<open>\<open>v - c\<close> for a finite \<open>c\<close>.\<close>

fun js_minus_const :: "jsnum \<Rightarrow> real \<Rightarrow> jsnum" where
  "js_minus_const (Num a) c = Num (a - c)"
| "js_minus_const v c = v"

text \<open>\<open>Math.abs(v)\<close>.\<close>

fun js_abs :: "jsnum \<Rightarrow> jsnum" where
  "js_abs (Num a) = Num \<bar>a\<bar>"
| "js_abs NaN = NaN"
| "js_abs v = PosInfinity"

text \<open>\<open>v / c\<close> for a finite positive \<open>c\<close>.\<close>

fun js_div_pos :: "jsnum \<Rightarrow> real \<Rightarrow> jsnum" where
  "js_div_pos (Num a) c = Num (a / c)"
| "js_div_pos v c = v"

text \<open>\<open>c - v\<close> for a finite \<open>c\<close>.\<close>

fun js_const_minus :: "real \<Rightarrow> jsnum \<Rightarrow> jsnum" where
  "js_const_minus c (Num a) = Num (c - a)"
| "js_const_minus c PosInfinity = NegInfinity"
| "js_const_minus c NegInfinity = PosInfinity"
| "js_const_minus c NaN = NaN"

text \<open>\<open>Math.max(c, v)\<close> and \<open>Math.min(c, v)\<close> for a finite \<open>c\<close>: NaN is contagious.\<close>

fun js_max_const :: "real \<Rightarrow> jsnum \<Rightarrow> jsnum" where
  "js_max_const c (Num a) = Num (max c a)"
| "js_max_const c PosInfinity = PosInfinity"
| "js_max_const c NegInfinity = Num c"
| "js_max_const c NaN = NaN"

fun js_min_const :: "real \<Rightarrow> jsnum \<Rightarrow> jsnum" where
  "js_min_const c (Num a) = Num (min c a)"
| "js_min_const c PosInfinity = Num c"
| "js_min_const c NegInfinity = NegInfinity"
| "js_min_const c NaN = NaN"


section \<open>Objects and the store\<close>

text \<open>
  Terrain segments and obstacles are JavaScript objects that are shared by reference:
  a gap obstacle keeps a reference to its host segment, and \<open>clearObstacle\<close> receives
  a reference to an obstacle. Both kinds of object live in a store, indexed by address;
  the arrays of the program hold addresses.
\<close>

record segment =
  seg_x :: real
  seg_y :: real
  seg_width :: real
  seg_height :: real
  hasGap :: bool

datatype obstacleType = Gap | Wall | Platform | Barrier

record obstacle =
  obs_type :: obstacleType
  obs_x :: real
  obs_y :: real
  obs_width :: real
  obs_height :: real
  cleared :: bool
  clearing :: bool
  clearProgress :: real
  glowPhase :: real
  obs_segment :: "nat option"
  lowered :: "bool option"

record store =
  segObjs :: "nat \<Rightarrow> segment"
  segNext :: nat
  obsObjs :: "nat \<Rightarrow> obstacle"
  obsNext :: nat

definition emptyStore :: store where
  "emptyStore =
     \<lparr>segObjs = (\<lambda>_. \<lparr>seg_x = 0, seg_y = 0, seg_width = 0, seg_height = 0, hasGap = False\<rparr>),
      segNext = 0,
      obsObjs = (\<lambda>_. \<lparr>obs_type = Wall, obs_x = 0, obs_y = 0, obs_width = 0, obs_height = 0,
                        cleared = False, clearing = False, clearProgress = 0, glowPhase = 0,
                        obs_segment = None, lowered = None\<rparr>),
      obsNext = 0\<rparr>"


section \<open>Terrain (src/js/terrain.js)\<close>

text \<open>
  The two parallax layers are decorative and are not modelled. \<open>segmentWidth\<close> and
  \<open>scrollSpeed\<close> are assigned once in the constructor and never again.
\<close>

definition segmentWidth :: real where
  "segmentWidth = 150"

definition scrollSpeed :: real where
  "scrollSpeed = 80"

record terrain =
  cameraX :: real
  segments :: "nat list"
  baseY :: real
  nextSegmentX :: real
  canvasWidth :: real
  canvasHeight :: real

text \<open>The state the constructor leaves.\<close>

definition newTerrain :: terrain where
  "newTerrain =
     \<lparr>cameraX = 0, segments = [], baseY = 0.7, nextSegmentX = 0,
      canvasWidth = 800, canvasHeight = 600\<rparr>"

definition generateSegment :: "store \<times> terrain \<Rightarrow> store \<times> terrain" where
  "generateSegment = (\<lambda>(st, t).
     (let segment = \<lparr>seg_x = nextSegmentX t, seg_y = baseY t, seg_width = segmentWidth,
                      seg_height = 20, hasGap = False\<rparr>;
          a = segNext st
      in (st\<lparr>segObjs := (segObjs st)(a := segment), segNext := Suc a\<rparr>,
          t\<lparr>segments := segments t @ [a], nextSegmentX := nextSegmentX t + segmentWidth\<rparr>)))"

text \<open>\<open>for (let i = 0; i < 10; i++) this.generateSegment()\<close>\<close>

fun generateSegments :: "nat \<Rightarrow> store \<times> terrain \<Rightarrow> store \<times> terrain" where
  "generateSegments 0 w = w"
| "generateSegments (Suc n) w = generateSegments n (generateSegment w)"

definition terrain_init :: "real \<Rightarrow> real \<Rightarrow> store \<times> terrain \<Rightarrow> store \<times> terrain" where
  "terrain_init cw ch = (\<lambda>(st, t).
     generateSegments 10
       (st, t\<lparr>canvasWidth := cw, canvasHeight := ch, baseY := ch * 0.7, cameraX := 0,
              segments := [], nextSegmentX := 0\<rparr>))"

text \<open>\<open>while (this.nextSegmentX < rightEdge) this.generateSegment()\<close>\<close>

function extendSegments :: "real \<Rightarrow> store \<times> terrain \<Rightarrow> store \<times> terrain" where
  "extendSegments rightEdge w =
     (if nextSegmentX (snd w) < rightEdge then extendSegments rightEdge (generateSegment w)
      else w)"
  by pat_completeness auto
termination
proof (relation "measure (\<lambda>(rightEdge, w). nat \<lceil>(rightEdge - nextSegmentX (snd w)) / 150\<rceil>)")
  show "wf (measure (\<lambda>(rightEdge, w). nat \<lceil>(rightEdge - nextSegmentX (snd w)) / 150\<rceil>))"
    by simp
next
  fix r :: real and w :: "store \<times> terrain"
  assume lt: "nextSegmentX (snd w) < r"
  define n where "n = nextSegmentX (snd w)"
  have nx: "nextSegmentX (snd (generateSegment w)) = n + 150"
    by (cases w) (simp add: n_def generateSegment_def segmentWidth_def Let_def)
  have "(r - (n + 150)) / 150 = (r - n) / 150 - 1"
    by (simp add: field_simps)
  then have "\<lceil>(r - (n + 150)) / 150\<rceil> = \<lceil>(r - n) / 150 - 1\<rceil>"
    by (simp only:)
  then have e: "\<lceil>(r - (n + 150)) / 150\<rceil> = \<lceil>(r - n) / 150\<rceil> - 1"
    by (simp only: ceiling_diff_one)
  have "0 < (r - n) / 150"
    using lt by (simp add: n_def)
  then have "0 < \<lceil>(r - n) / 150\<rceil>"
    by (rule iffD2[OF zero_less_ceiling])
  with e have "nat \<lceil>(r - (n + 150)) / 150\<rceil> < nat \<lceil>(r - n) / 150\<rceil>"
    by linarith
  then show "((r, generateSegment w), (r, w))
      \<in> measure (\<lambda>(rightEdge, w). nat \<lceil>(rightEdge - nextSegmentX (snd w)) / 150\<rceil>)"
    by (simp only: in_measure prod.case nx n_def)
qed

declare extendSegments.simps [simp del]

text \<open>Lines 49 to 54 of \<open>update\<close>: the camera follows the leader or scrolls.\<close>

definition moveCamera :: "real \<Rightarrow> real option \<Rightarrow> terrain \<Rightarrow> terrain" where
  "moveCamera deltaTime herbieX t =
     (case herbieX of
        Some hx \<Rightarrow>
          (let targetX = max 0 (hx - canvasWidth t * 0.3)
           in t\<lparr>cameraX := cameraX t + (targetX - cameraX t) * min 1 (deltaTime * 4)\<rparr>)
      | None \<Rightarrow> t\<lparr>cameraX := cameraX t + scrollSpeed * deltaTime\<rparr>)"

text \<open>Line 72 of \<open>update\<close>: segments behind the camera are dropped from the array.\<close>

definition recycleSegments :: "store \<times> terrain \<Rightarrow> store \<times> terrain" where
  "recycleSegments = (\<lambda>(st, t).
     (st, t\<lparr>segments :=
              filter (\<lambda>a. seg_x (segObjs st a) + seg_width (segObjs st a) > cameraX t - 100)
                (segments t)\<rparr>))"

text \<open>\<open>update(deltaTime, distance, herbieX = null)\<close>; \<open>distance\<close> is not used by the body.\<close>

definition terrain_update ::
  "real \<Rightarrow> real \<Rightarrow> real option \<Rightarrow> store \<times> terrain \<Rightarrow> store \<times> terrain" where
  "terrain_update deltaTime distance herbieX = (\<lambda>(st, t).
     (let t1 = moveCamera deltaTime herbieX t;
          rightEdge = cameraX t1 + canvasWidth t1 + 200
      in recycleSegments (extendSegments rightEdge (st, t1))))"

text \<open>\<open>this.segments.find(seg => x >= seg.x && x < seg.x + seg.width)\<close>\<close>

definition findSegment :: "store \<Rightarrow> terrain \<Rightarrow> real \<Rightarrow> nat option" where
  "findSegment st t x =
     find (\<lambda>a. x \<ge> seg_x (segObjs st a) \<and> x < seg_x (segObjs st a) + seg_width (segObjs st a))
       (segments t)"

definition getYAtX :: "store \<Rightarrow> terrain \<Rightarrow> real \<Rightarrow> real option" where
  "getYAtX st t x =
     (case findSegment st t x of
        Some a \<Rightarrow> (if \<not> hasGap (segObjs st a) then Some (seg_y (segObjs st a)) else None)
      | None \<Rightarrow> None)"



section \<open>Hikers (src/js/hikers.js)\<close>

text \<open>
  \<open>herbieIndex\<close>, \<open>spacing\<close> and \<open>maxStretch\<close> are assigned once in the constructor
  and never again.
\<close>

definition herbieIndex :: nat where
  "herbieIndex = 0"

definition spacing :: real where
  "spacing = 60"


record hiker =
  hiker_index :: nat
  baseSpeed :: real
  currentSpeed :: real
  hiker_x :: real
  hiker_y :: real
  targetY :: real
  vx :: real
  vy :: real
  hiker_size :: real
  glowRadius :: real
  swayPhase :: real
  swayOffset :: real
  walkPhase :: real
  bobOffset :: real
  isWaiting :: bool
  offloadBoost :: real
  pulseTime :: real

record hikerSystem =
  hikers :: "hiker list"
  herbieLabelTime :: real

datatype error = TypeError

definition newHikerSystem :: hikerSystem where
  "newHikerSystem = \<lparr>hikers = [], herbieLabelTime = 0\<rparr>"

definition baseSpeeds :: "real list" where
  "baseSpeeds = [1.0, 1.15, 1.3, 1.45, 1.6]"

text \<open>
  The hiker that \<open>init\<close> creates for one entry of \<open>baseSpeeds\<close>. The two
  \<open>Math.random()\<close> draws of the entry are the parameters \<open>r1\<close> and \<open>r2\<close>.
\<close>

definition mkHiker :: "real \<Rightarrow> real \<Rightarrow> nat \<Rightarrow> real \<Rightarrow> real \<times> real \<Rightarrow> hiker" where
  "mkHiker startX startY index bs = (\<lambda>(r1, r2).
     \<lparr>hiker_index = index, baseSpeed = bs, currentSpeed = bs,
      hiker_x = startX - real index * spacing, hiker_y = startY, targetY = startY,
      vx = 0, vy = 0, hiker_size = 16, glowRadius = (if index = 0 then 16 else 10),
      swayPhase = r1 * pi * 2, swayOffset = 0, walkPhase = r2 * pi * 2, bobOffset = 0,
      isWaiting = False, offloadBoost = 0, pulseTime = 0\<rparr>)"

text \<open>
  \<open>init(startX, startY)\<close>; \<open>rnd i\<close> is the pair of random draws made for entry \<open>i\<close>.
\<close>

definition hikerSystem_init :: "real \<Rightarrow> real \<Rightarrow> (nat \<Rightarrow> real \<times> real) \<Rightarrow> hikerSystem \<Rightarrow> hikerSystem" where
  "hikerSystem_init startX startY rnd s =
     s\<lparr>hikers := map (\<lambda>(index, bs). mkHiker startX startY index bs (rnd index))
                     (enumerate 0 baseSpeeds)\<rparr>"

subsection \<open>The body of the \<open>forEach\<close> in \<open>update\<close>, stage by stage\<close>

text \<open>
  Lines 48 to 71. \<open>ahead\<close> is \<open>None\<close> for index 0 and otherwise the hiker at
  \<open>index - 1\<close> as the array holds it when this hiker is processed.
\<close>

definition setSpeed :: "real \<Rightarrow> hiker option \<Rightarrow> hiker \<Rightarrow> hiker" where
  "setSpeed herbieSpeed ahead hiker =
     (let targetSpeed = min (baseSpeed hiker + offloadBoost hiker) herbieSpeed
      in case ahead of
           Some hikerAhead \<Rightarrow>
             (let distance = hiker_x hikerAhead - hiker_x hiker
              in if distance < spacing * 0.8 then
                   hiker\<lparr>isWaiting := True,
                         currentSpeed := max 0 (targetSpeed * (distance / spacing))\<rparr>
                 else if distance > spacing * 1.5 then
                   hiker\<lparr>isWaiting := False, currentSpeed := baseSpeed hiker * 1.2\<rparr>
                 else
                   hiker\<lparr>isWaiting := False, currentSpeed := targetSpeed\<rparr>)
         | None \<Rightarrow> hiker\<lparr>currentSpeed := herbieSpeed, isWaiting := False\<rparr>)"

text \<open>Line 74.\<close>

definition moveHorizontally :: "real \<Rightarrow> hiker \<Rightarrow> hiker" where
  "moveHorizontally deltaTime hiker =
     hiker\<lparr>hiker_x := hiker_x hiker + currentSpeed hiker * 100 * deltaTime\<rparr>"

text \<open>Lines 77 to 84.\<close>

definition followTerrain :: "real \<Rightarrow> store \<Rightarrow> terrain \<Rightarrow> hiker \<Rightarrow> hiker" where
  "followTerrain deltaTime st t hiker =
     (let h1 = (case getYAtX st t (hiker_x hiker) of
                  Some groundY \<Rightarrow> hiker\<lparr>targetY := groundY\<rparr>
                | None \<Rightarrow> hiker);
          yDiff = targetY h1 - hiker_y h1
      in h1\<lparr>hiker_y := hiker_y h1 + yDiff * 5 * deltaTime\<rparr>)"

text \<open>Lines 87 to 100.\<close>

definition animate :: "real \<Rightarrow> hiker \<Rightarrow> hiker" where
  "animate deltaTime hiker =
     (let h1 = (if currentSpeed hiker > 0.1 then
                  (let wp = walkPhase hiker + currentSpeed hiker * 8 * deltaTime
                   in hiker\<lparr>walkPhase := wp, bobOffset := sin wp * 3\<rparr>)
                else hiker\<lparr>bobOffset := 0\<rparr>)
      in if isWaiting h1 then
           (let sp = swayPhase h1 + deltaTime
            in h1\<lparr>swayPhase := sp, swayOffset := sin sp * 2\<rparr>)
         else h1\<lparr>swayOffset := 0\<rparr>)"

text \<open>Lines 103 to 109.\<close>

definition decayBoost :: "real \<Rightarrow> hiker \<Rightarrow> hiker" where
  "decayBoost deltaTime hiker =
     (if offloadBoost hiker \<noteq> 0 then
        (let direction = (if offloadBoost hiker > 0 then - 1 else 1);
             b = offloadBoost hiker + direction * deltaTime * 0.5
         in if \<bar>b\<bar> < 0.01 then hiker\<lparr>offloadBoost := 0\<rparr> else hiker\<lparr>offloadBoost := b\<rparr>)
      else hiker)"

text \<open>Lines 111 to 113.\<close>

definition decayPulse :: "real \<Rightarrow> hiker \<Rightarrow> hiker" where
  "decayPulse deltaTime hiker =
     (if pulseTime hiker > 0 then hiker\<lparr>pulseTime := max 0 (pulseTime hiker - deltaTime)\<rparr>
      else hiker)"

definition updateHiker ::
  "real \<Rightarrow> store \<Rightarrow> terrain \<Rightarrow> real \<Rightarrow> hiker option \<Rightarrow> hiker \<Rightarrow> hiker" where
  "updateHiker deltaTime st t herbieSpeed ahead hiker =
     decayPulse deltaTime
       (decayBoost deltaTime
         (animate deltaTime
           (followTerrain deltaTime st t
             (moveHorizontally deltaTime
               (setSpeed herbieSpeed ahead hiker)))))"

text \<open>
  The \<open>forEach\<close> visits the hikers in index order and mutates each in place, so the
  hiker at \<open>index - 1\<close> that a follower reads has already been updated in this tick.
  \<open>ahead\<close> carries that updated hiker along the list.
\<close>

fun forEachHiker ::
  "real \<Rightarrow> store \<Rightarrow> terrain \<Rightarrow> real \<Rightarrow> hiker option \<Rightarrow> hiker list \<Rightarrow> hiker list" where
  "forEachHiker deltaTime st t herbieSpeed ahead [] = []"
| "forEachHiker deltaTime st t herbieSpeed ahead (hiker # rest) =
     (let h' = updateHiker deltaTime st t herbieSpeed ahead hiker
      in h' # forEachHiker deltaTime st t herbieSpeed (Some h') rest)"

text \<open>
  \<open>update(deltaTime, terrain)\<close>. With no hikers, \<open>herbie\<close> is \<open>undefined\<close> and reading
  \<open>herbie.baseSpeed\<close> throws a TypeError (after \<open>herbieLabelTime\<close> was assigned, but
  the model does not return a state with the error).
\<close>

definition hikerSystem_update ::
  "real \<Rightarrow> store \<Rightarrow> terrain \<Rightarrow> hikerSystem \<Rightarrow> error + hikerSystem" where
  "hikerSystem_update deltaTime st t s =
     (case hikers s of
        [] \<Rightarrow> Inl TypeError
      | herbie # _ \<Rightarrow>
          (let herbieSpeed = baseSpeed herbie + offloadBoost herbie
           in Inr (s\<lparr>herbieLabelTime := max 0 (herbieLabelTime s - deltaTime),
                     hikers := forEachHiker deltaTime st t herbieSpeed None (hikers s)\<rparr>)))"

definition triggerPulse :: "hikerSystem \<Rightarrow> hikerSystem" where
  "triggerPulse s = s\<lparr>hikers := map (\<lambda>hiker. hiker\<lparr>pulseTime := 0.8\<rparr>) (hikers s)\<rparr>"

definition setHerbieLabel :: "real \<Rightarrow> hikerSystem \<Rightarrow> hikerSystem" where
  "setHerbieLabel seconds s = s\<lparr>herbieLabelTime := seconds\<rparr>"

text \<open>
  \<open>offloadHiker(hikerIndex)\<close>. An index outside the array gives \<open>hiker = undefined\<close>,
  and the assignment to \<open>hiker.offloadBoost\<close> throws a TypeError. The follower is
  written first, then the leader (they are different objects, as
  \<open>hikerIndex \<noteq> herbieIndex\<close>).
\<close>

definition offloadHiker :: "nat \<Rightarrow> hikerSystem \<Rightarrow> error + hikerSystem" where
  "offloadHiker hikerIndex s =
     (if hikerIndex = herbieIndex then Inr s
      else if hikerIndex \<ge> length (hikers s) then Inl TypeError
      else
        (let hs1 = (hikers s)[hikerIndex := (hikers s ! hikerIndex)\<lparr>offloadBoost := - 0.2\<rparr>];
             herbie = hs1 ! herbieIndex;
             hs2 = hs1[herbieIndex := herbie\<lparr>offloadBoost := max (offloadBoost herbie) 0.4\<rparr>]
         in Inr (triggerPulse (s\<lparr>hikers := hs2\<rparr>))))"

text \<open>
  The loop of \<open>getFlowMultiplier\<close> (also of \<open>isTooStretched\<close>): it visits the adjacent
  pairs \<open>(hikers[i - 1], hikers[i])\<close> for \<open>i = 1, ..., length - 1\<close>.
\<close>

fun spacingLoop :: "hiker list \<Rightarrow> real \<times> nat \<Rightarrow> real \<times> nat" where
  "spacingLoop (a # b # rest) (totalSpacing, count) =
     spacingLoop (b # rest) (totalSpacing + (hiker_x a - hiker_x b), count + 1)"
| "spacingLoop [a] acc = acc"
| "spacingLoop [] acc = acc"

definition getFlowMultiplier :: "hikerSystem \<Rightarrow> jsnum" where
  "getFlowMultiplier s =
     (let (totalSpacing, count) = spacingLoop (hikers s) (0, 0);
          avgSpacing = js_div totalSpacing (real count);
          idealSpacing = spacing;
          deviation = js_abs (js_minus_const avgSpacing idealSpacing);
          multiplier = js_max_const 1.0 (js_const_minus 3.0 (js_div_pos deviation idealSpacing))
      in js_min_const 3.0 multiplier)"




section \<open>Obstacles (src/js/obstacles.js)\<close>

text \<open>
  \<open>baseSpawnRate\<close> and \<open>minSpawnRate\<close> are assigned once in the constructor and never
  again.
\<close>

definition baseSpawnRate :: real where
  "baseSpawnRate = 180"

definition minSpawnRate :: real where
  "minSpawnRate = 120"

record obstacleSystem =
  obstacles :: "nat list"
  nextObstacleDistance :: real
  obstaclesCleared :: nat
  lastClearTime :: real

definition newObstacleSystem :: obstacleSystem where
  "newObstacleSystem =
     \<lparr>obstacles = [], nextObstacleDistance = 0, obstaclesCleared = 0, lastClearTime = 0\<rparr>"

definition obstacleSystem_init :: "obstacleSystem \<Rightarrow> obstacleSystem" where
  "obstacleSystem_init os =
     os\<lparr>obstacles := [], nextObstacleDistance := 400, obstaclesCleared := 0, lastClearTime := 0\<rparr>"

text \<open>
  \<open>const difficulty = Math.min(1.0, distance * 0.0002)\<close>, as both \<open>update\<close> and
  \<open>spawnObstacle\<close> compute it.
\<close>

definition difficultyAt :: "real \<Rightarrow> real" where
  "difficultyAt distance = min 1.0 (distance * 0.0002)"

text \<open>Lines 54 to 67 of \<open>spawnObstacle\<close>; \<open>rand\<close> is the \<open>Math.random()\<close> draw.\<close>

definition chooseType :: "real \<Rightarrow> real \<Rightarrow> obstacleType" where
  "chooseType distance rand =
     (let difficulty = difficultyAt distance
      in if difficulty < 0.2 then
           (if rand < 0.4 then Wall else (if rand < 0.7 then Barrier else Gap))
         else if difficulty < 0.5 then
           (if rand < 0.25 then Gap
            else (if rand < 0.5 then Wall else (if rand < 0.75 then Barrier else Platform)))
         else
           (if rand < 0.2 then Gap
            else (if rand < 0.45 then Wall else (if rand < 0.7 then Barrier else Platform))))"

text \<open>The \<open>switch\<close> of \<open>spawnObstacle\<close>: the object built for a type on the segment at \<open>a\<close>.\<close>

fun mkObstacle :: "obstacleType \<Rightarrow> nat \<Rightarrow> segment \<Rightarrow> obstacle" where
  "mkObstacle Gap a sg =
     \<lparr>obs_type = Gap, obs_x = seg_x sg, obs_y = seg_y sg, obs_width = seg_width sg,
      obs_height = 20, cleared = False, clearing = False, clearProgress = 0, glowPhase = 0,
      obs_segment = Some a, lowered = None\<rparr>"
| "mkObstacle Wall a sg =
     \<lparr>obs_type = Wall, obs_x = seg_x sg + seg_width sg * 0.3, obs_y = seg_y sg - 60,
      obs_width = 30, obs_height = 60, cleared = False, clearing = False, clearProgress = 0,
      glowPhase = 0, obs_segment = None, lowered = None\<rparr>"
| "mkObstacle Platform a sg =
     \<lparr>obs_type = Platform, obs_x = seg_x sg + seg_width sg * 0.3, obs_y = seg_y sg - 50,
      obs_width = 80, obs_height = 50, cleared = False, clearing = False, clearProgress = 0,
      glowPhase = 0, obs_segment = None, lowered = Some False\<rparr>"
| "mkObstacle Barrier a sg =
     \<lparr>obs_type = Barrier, obs_x = seg_x sg + seg_width sg * 0.4, obs_y = seg_y sg - 80,
      obs_width = 20, obs_height = 80, cleared = False, clearing = False, clearProgress = 0,
      glowPhase = 0, obs_segment = None, lowered = None\<rparr>"

definition spawnObstacle ::
  "terrain \<Rightarrow> real \<Rightarrow> real \<Rightarrow> store \<times> obstacleSystem \<Rightarrow> store \<times> obstacleSystem" where
  "spawnObstacle t distance rand = (\<lambda>(st, os).
     (let type = chooseType distance rand;
          spawnX = cameraX t + canvasWidth t + 200
      in case findSegment st t spawnX of
           None \<Rightarrow> (st, os)
         | Some a \<Rightarrow>
             (let obstacle = mkObstacle type a (segObjs st a);
                  st1 = (if type = Gap
                         then st\<lparr>segObjs := (segObjs st)(a := (segObjs st a)\<lparr>hasGap := True\<rparr>)\<rparr>
                         else st);
                  b = obsNext st1
              in (st1\<lparr>obsObjs := (obsObjs st1)(b := obstacle), obsNext := Suc b\<rparr>,
                  os\<lparr>obstacles := obstacles os @ [b]\<rparr>))))"

text \<open>Lines 34 to 42: the body of the \<open>forEach\<close> over the obstacles.\<close>

definition ageObstacle :: "real \<Rightarrow> obstacle \<Rightarrow> obstacle" where
  "ageObstacle deltaTime obstacle =
     (let o1 = (if clearing obstacle then
                  (let o' = obstacle\<lparr>clearProgress := clearProgress obstacle + deltaTime * 2\<rparr>
                   in if clearProgress o' \<ge> 1.0 then o'\<lparr>cleared := True\<rparr> else o')
                else obstacle)
      in o1\<lparr>glowPhase := glowPhase o1 + deltaTime * 2\<rparr>)"

definition ageObstacles :: "real \<Rightarrow> nat list \<Rightarrow> store \<Rightarrow> store" where
  "ageObstacles deltaTime refs st =
     fold (\<lambda>a s. s\<lparr>obsObjs := (obsObjs s)(a := ageObstacle deltaTime (obsObjs s a))\<rparr>) refs st"

text \<open>Lines 46 to 49: the pruning filter.\<close>

definition pruneObstacles :: "store \<Rightarrow> terrain \<Rightarrow> obstacleSystem \<Rightarrow> obstacleSystem" where
  "pruneObstacles st t os =
     os\<lparr>obstacles :=
          filter (\<lambda>a. \<not> cleared (obsObjs st a) \<and> obs_x (obsObjs st a) > cameraX t - 200)
            (obstacles os)\<rparr>"

text \<open>
  \<open>update(deltaTime, terrain, distance)\<close>; \<open>rand\<close> is the draw made by \<open>spawnObstacle\<close>
  and \<open>jitter\<close> the one made for the next spawn distance (both only when a spawn is due).
\<close>

definition obstacleSystem_update ::
  "real \<Rightarrow> terrain \<Rightarrow> real \<Rightarrow> real \<Rightarrow> real \<Rightarrow> store \<times> obstacleSystem
     \<Rightarrow> store \<times> obstacleSystem" where
  "obstacleSystem_update deltaTime t distance rand jitter = (\<lambda>(st, os).
     (let (st1, os1) =
            (if distance > nextObstacleDistance os then
               (let (st', os') = spawnObstacle t distance rand (st, os);
                    difficulty = difficultyAt distance;
                    spawnRate = baseSpawnRate - (baseSpawnRate - minSpawnRate) * difficulty
                in (st', os'\<lparr>nextObstacleDistance := distance + spawnRate + jitter * 80\<rparr>))
             else (st, os));
          st2 = ageObstacles deltaTime (obstacles os1) st1
      in (st2, pruneObstacles st2 t os1)))"

text \<open>
  \<open>clearObstacle(obstacle)\<close>; the argument is the address of the obstacle object and
  \<open>now\<close> the value of \<open>performance.now()\<close>.
\<close>

definition clearObstacle ::
  "nat \<Rightarrow> real \<Rightarrow> store \<times> obstacleSystem \<Rightarrow> bool \<times> store \<times> obstacleSystem" where
  "clearObstacle a now = (\<lambda>(st, os).
     (let obstacle = obsObjs st a
      in if cleared obstacle \<or> clearing obstacle then (False, st, os)
         else
           (let st1 = st\<lparr>obsObjs := (obsObjs st)(a := obstacle\<lparr>clearing := True\<rparr>)\<rparr>;
                st2 = (if obs_type obstacle = Gap then
                         (case obs_segment obstacle of
                            Some sg \<Rightarrow>
                              st1\<lparr>segObjs := (segObjs st1)(sg := (segObjs st1 sg)\<lparr>hasGap := False\<rparr>)\<rparr>
                          | None \<Rightarrow> st1)
                       else st1)
            in (True, st2,
                os\<lparr>obstaclesCleared := obstaclesCleared os + 1, lastClearTime := now\<rparr>))))"



section \<open>The game state machine (src/unnamed/part_001, src/js/input.js, src/js/ui.js)\<close>

datatype gameStateTag = Title | Playing | Paused | Gameover

text \<open>
  Of the collaborators only what \<open>pauseGame\<close> and \<open>resumeGame\<close> touch is modelled:
  \<open>isEnabled\<close> of the input system (the listener is attached exactly while it is true)
  and the \<open>hidden\<close> class of the pause overlay.
\<close>

record game =
  gameState :: gameStateTag
  isEnabled :: bool
  pauseOverlayHidden :: bool
  objStore :: store
  g_terrain :: terrain
  g_hikers :: hikerSystem
  g_obstacles :: obstacleSystem
  g_distance :: real
  g_score :: real
  g_flowMultiplier :: jsnum
  g_lastFlowUpdate :: real
  g_runStartX :: real
  g_obstaclesCleared :: nat

definition input_enable :: "game \<Rightarrow> game" where
  "input_enable g = (if isEnabled g then g else g\<lparr>isEnabled := True\<rparr>)"

definition input_disable :: "game \<Rightarrow> game" where
  "input_disable g = (if \<not> isEnabled g then g else g\<lparr>isEnabled := False\<rparr>)"

definition showPause :: "game \<Rightarrow> game" where
  "showPause g = g\<lparr>pauseOverlayHidden := False\<rparr>"

definition hidePause :: "game \<Rightarrow> game" where
  "hidePause g = g\<lparr>pauseOverlayHidden := True\<rparr>"

definition pauseGame :: "game \<Rightarrow> game" where
  "pauseGame g =
     (if gameState g \<noteq> Playing then g
      else input_disable (showPause (g\<lparr>gameState := Paused\<rparr>)))"

definition resumeGame :: "game \<Rightarrow> game" where
  "resumeGame g =
     (if gameState g \<noteq> Paused then g
      else input_enable (hidePause (g\<lparr>gameState := Playing\<rparr>)))"


text \<open>
  The state the constructor of \<open>Game\<close> leaves (the pause overlay is taken to start
  hidden, as \<open>hidePause\<close> leaves it).
\<close>

definition newGame :: game where
  "newGame =
     \<lparr>gameState = Title, isEnabled = False, pauseOverlayHidden = True, objStore = emptyStore,
      g_terrain = newTerrain, g_hikers = newHikerSystem, g_obstacles = newObstacleSystem,
      g_distance = 0, g_score = 0, g_flowMultiplier = Num 1.0, g_lastFlowUpdate = 0,
      g_runStartX = 0, g_obstaclesCleared = 0\<rparr>"














section \<open>Reachable states of the caravan\<close>

text \<open>
  The states a run can be in: \<open>init\<close> creates the five hikers, and afterwards the game
  loop calls \<open>update\<close> with a time step in \<open>(0, 0.1]\<close> (the loop caps it at 0.1), the
  input system calls \<open>offloadHiker\<close> and \<open>triggerPulse\<close>, and \<open>startGame\<close> calls
  \<open>setHerbieLabel\<close>.
\<close>

inductive reachableHikers :: "hikerSystem \<Rightarrow> bool" where
  r_init: "reachableHikers (hikerSystem_init startX startY rnd s0)"
| r_update: "reachableHikers s \<Longrightarrow> 0 < deltaTime \<Longrightarrow> deltaTime \<le> 0.1
     \<Longrightarrow> hikerSystem_update deltaTime st t s = Inr s' \<Longrightarrow> reachableHikers s'"
| r_offload: "reachableHikers s \<Longrightarrow> offloadHiker hikerIndex s = Inr s' \<Longrightarrow> reachableHikers s'"
| r_pulse: "reachableHikers s \<Longrightarrow> reachableHikers (triggerPulse s)"
| r_label: "reachableHikers s \<Longrightarrow> reachableHikers (setHerbieLabel seconds s)"

text \<open>What every hiker of a reachable state satisfies: its speed and boost bounds.\<close>

definition boundedHiker :: "hiker \<Rightarrow> bool" where
  "boundedHiker h \<longleftrightarrow> 1 \<le> baseSpeed h \<and> baseSpeed h \<le> 1.6
     \<and> - 0.2 \<le> offloadBoost h \<and> offloadBoost h \<le> 0.4"

text \<open>
  \<open>behind b hs\<close>: the hikers of \<open>hs\<close> are, in order, each strictly behind the one
  before, and the first is strictly behind the position \<open>b\<close>.
\<close>

fun behind :: "real \<Rightarrow> hiker list \<Rightarrow> bool" where
  "behind b [] = True"
| "behind b (h # rest) = (hiker_x h < b \<and> behind (hiker_x h) rest)"

fun inLine :: "hiker list \<Rightarrow> bool" where
  "inLine [] = True"
| "inLine (h # rest) = behind (hiker_x h) rest"

definition caravanInv :: "hikerSystem \<Rightarrow> bool" where
  "caravanInv s \<longleftrightarrow> (\<forall>h \<in> set (hikers s). boundedHiker h) \<and> inLine (hikers s)"


text \<open>The caravan as \<open>startGame\<close> creates it (canvas height 600), all random phases 0.\<close>

definition caravanStart :: hikerSystem where
  "caravanStart = hikerSystem_init 200 420 (\<lambda>i. (0, 0)) newHikerSystem"

text \<open>
  The flow multiplier in the words of the specification: the adjacent spacings, their
  average, and \<open>clamp\<close>.
\<close>

fun adjacentSpacings :: "hiker list \<Rightarrow> real list" where
  "adjacentSpacings (a # b # rest) = (hiker_x a - hiker_x b) # adjacentSpacings (b # rest)"
| "adjacentSpacings [a] = []"
| "adjacentSpacings [] = []"

definition averageSpacing :: "hiker list \<Rightarrow> real" where
  "averageSpacing hs = sum_list (adjacentSpacings hs) / real (length (adjacentSpacings hs))"

definition clamp :: "real \<Rightarrow> real \<Rightarrow> real \<Rightarrow> real" where
  "clamp v lo hi = min hi (max lo v)"

text \<open>A caravan of one: the leader alone, as \<open>init\<close> would create it.\<close>

definition loneHiker :: hikerSystem where
  "loneHiker = newHikerSystem\<lparr>hikers := [mkHiker 200 420 0 1.0 (0, 0)]\<rparr>"


section \<open>Reachable states of the terrain and the obstacles\<close>

text \<open>
  A run starts with \<open>init\<close> of the terrain (canvas \<open>cw\<close> by \<open>ch\<close>, on the store
  \<open>st0\<close>) and of the obstacle system; afterwards the terrain and the obstacle system are
  updated and obstacles are cleared, in any order and with any arguments.
\<close>

inductive reachableWorld ::
  "real \<Rightarrow> real \<Rightarrow> store \<Rightarrow> store \<times> terrain \<times> obstacleSystem \<Rightarrow> bool" where
  w_start: "terrain_init cw ch (st0, t0) = (st, t)
     \<Longrightarrow> reachableWorld cw ch st0 (st, t, obstacleSystem_init os0)"
| w_terrain: "reachableWorld cw ch st0 (st, t, os)
     \<Longrightarrow> terrain_update deltaTime distance herbieX (st, t) = (st', t')
     \<Longrightarrow> reachableWorld cw ch st0 (st', t', os)"
| w_obstacles: "reachableWorld cw ch st0 (st, t, os)
     \<Longrightarrow> obstacleSystem_update deltaTime t distance rand jitter (st, os) = (st', os')
     \<Longrightarrow> reachableWorld cw ch st0 (st', t, os')"
| w_clear: "reachableWorld cw ch st0 (st, t, os)
     \<Longrightarrow> clearObstacle a now (st, os) = (ok, st', os')
     \<Longrightarrow> reachableWorld cw ch st0 (st', t, os')"

text \<open>
  The invariant of the terrain in a run whose first segment has the address \<open>base\<close>:
  the segment at address \<open>a\<close> is the \<open>(a - base)\<close>-th of the run, and the array holds
  the addresses of the newest segments, in order.
\<close>

definition terrainInv :: "real \<Rightarrow> nat \<Rightarrow> store \<times> terrain \<Rightarrow> bool" where
  "terrainInv ch base = (\<lambda>(st, t).
     base \<le> segNext st \<and> canvasHeight t = ch \<and> baseY t = ch * 0.7
     \<and> nextSegmentX t = segmentWidth * real (segNext st - base)
     \<and> (\<forall>a. base \<le> a \<and> a < segNext st \<longrightarrow>
            seg_x (segObjs st a) = segmentWidth * real (a - base)
            \<and> seg_y (segObjs st a) = ch * 0.7
            \<and> seg_width (segObjs st a) = segmentWidth)
     \<and> (\<exists>k. base \<le> k \<and> k \<le> segNext st \<and> segments t = [k..<segNext st]))"

text \<open>Two stores that differ at most in the gap flags and in the obstacles.\<close>

definition sameGround :: "store \<Rightarrow> store \<Rightarrow> bool" where
  "sameGround st st' \<longleftrightarrow> segNext st' = segNext st
     \<and> (\<forall>a. seg_x (segObjs st' a) = seg_x (segObjs st a)
            \<and> seg_y (segObjs st' a) = seg_y (segObjs st a)
            \<and> seg_width (segObjs st' a) = seg_width (segObjs st a))"

text \<open>
  Concrete states: the terrain and the obstacle system as \<open>startGame\<close> creates them on
  an 800 by 600 canvas, and a gap spawned there (the draw is 0.8).
\<close>

definition terrainStart :: "store \<times> terrain" where
  "terrainStart = terrain_init 800 600 (emptyStore, newTerrain)"

definition obstaclesStart :: obstacleSystem where
  "obstaclesStart = obstacleSystem_init newObstacleSystem"

definition spawnedGap :: "store \<times> obstacleSystem" where
  "spawnedGap = spawnObstacle (snd terrainStart) 0 0.8 (fst terrainStart, obstaclesStart)"


section \<open>Reachable states of the game\<close>














section \<open>Properties of the state machine\<close>

text \<open>
  C9. Invalid transitions are silent no-ops: \<open>pauseGame\<close> in any state other than
  \<open>playing\<close> returns with the whole game (state tag, input enablement, overlay and
  simulation state) unchanged, and so does \<open>resumeGame\<close> in any state other than
  \<open>paused\<close>. Both return before calling any collaborator, so nothing can throw.
\<close>

theorem invalid_transitions_noop:
  "(gameState g \<noteq> Playing \<longrightarrow> pauseGame g = g) \<and> (gameState g \<noteq> Paused \<longrightarrow> resumeGame g = g)"
  by (simp add: pauseGame_def resumeGame_def)

theorem invalid_transitions_noop_witness:
  "gameState newGame \<noteq> Playing \<and> gameState newGame \<noteq> Paused
   \<and> pauseGame newGame = newGame \<and> resumeGame newGame = newGame"
  using invalid_transitions_noop [of newGame] by (simp add: newGame_def)


section \<open>Properties of the caravan\<close>

subsection \<open>What one tick does to one hiker\<close>

lemma setSpeed_keeps:
  "baseSpeed (setSpeed v ahead h) = baseSpeed h"
  "hiker_x (setSpeed v ahead h) = hiker_x h"
  "offloadBoost (setSpeed v ahead h) = offloadBoost h"
  by (simp_all add: setSpeed_def Let_def split: option.splits)

lemma moveHorizontally_keeps:
  "baseSpeed (moveHorizontally dt h) = baseSpeed h"
  "currentSpeed (moveHorizontally dt h) = currentSpeed h"
  "isWaiting (moveHorizontally dt h) = isWaiting h"
  "offloadBoost (moveHorizontally dt h) = offloadBoost h"
  "hiker_x (moveHorizontally dt h) = hiker_x h + currentSpeed h * 100 * dt"
  by (simp_all add: moveHorizontally_def)

lemma followTerrain_keeps:
  "baseSpeed (followTerrain dt st t h) = baseSpeed h"
  "currentSpeed (followTerrain dt st t h) = currentSpeed h"
  "isWaiting (followTerrain dt st t h) = isWaiting h"
  "offloadBoost (followTerrain dt st t h) = offloadBoost h"
  "hiker_x (followTerrain dt st t h) = hiker_x h"
  by (simp_all add: followTerrain_def Let_def split: option.splits)

lemma animate_keeps:
  "baseSpeed (animate dt h) = baseSpeed h"
  "currentSpeed (animate dt h) = currentSpeed h"
  "isWaiting (animate dt h) = isWaiting h"
  "offloadBoost (animate dt h) = offloadBoost h"
  "hiker_x (animate dt h) = hiker_x h"
  by (simp_all add: animate_def Let_def)

lemma decayBoost_keeps:
  "baseSpeed (decayBoost dt h) = baseSpeed h"
  "currentSpeed (decayBoost dt h) = currentSpeed h"
  "isWaiting (decayBoost dt h) = isWaiting h"
  "hiker_x (decayBoost dt h) = hiker_x h"
  by (simp_all add: decayBoost_def Let_def)

lemma decayPulse_keeps:
  "baseSpeed (decayPulse dt h) = baseSpeed h"
  "currentSpeed (decayPulse dt h) = currentSpeed h"
  "isWaiting (decayPulse dt h) = isWaiting h"
  "offloadBoost (decayPulse dt h) = offloadBoost h"
  "hiker_x (decayPulse dt h) = hiker_x h"
  by (simp_all add: decayPulse_def)

lemma decayBoost_cong:
  "offloadBoost h = offloadBoost h' \<Longrightarrow> offloadBoost (decayBoost dt h) = offloadBoost (decayBoost dt h')"
  by (simp add: decayBoost_def Let_def)

lemma updateHiker_fields:
  "baseSpeed (updateHiker dt st t v ahead h) = baseSpeed h"
  "currentSpeed (updateHiker dt st t v ahead h) = currentSpeed (setSpeed v ahead h)"
  "isWaiting (updateHiker dt st t v ahead h) = isWaiting (setSpeed v ahead h)"
  "hiker_x (updateHiker dt st t v ahead h) = hiker_x h + currentSpeed (setSpeed v ahead h) * 100 * dt"
  "offloadBoost (updateHiker dt st t v ahead h) = offloadBoost (decayBoost dt h)"
      apply (simp_all only: updateHiker_def decayPulse_keeps decayBoost_keeps animate_keeps
      followTerrain_keeps moveHorizontally_keeps setSpeed_keeps)
  apply (rule decayBoost_cong)
  apply (simp only: animate_keeps followTerrain_keeps moveHorizontally_keeps setSpeed_keeps)
  done

lemma decayBoost_bounds:
  assumes "0 < dt" "dt \<le> 0.1" "- 0.2 \<le> offloadBoost h" "offloadBoost h \<le> 0.4"
  shows "- 0.2 \<le> offloadBoost (decayBoost dt h) \<and> offloadBoost (decayBoost dt h) \<le> 0.4"
  using assms by (auto simp add: decayBoost_def Let_def)

lemma updateHiker_bounded:
  "0 < dt \<Longrightarrow> dt \<le> 0.1 \<Longrightarrow> boundedHiker h \<Longrightarrow> boundedHiker (updateHiker dt st t v ahead h)"
  using decayBoost_bounds [of dt h] by (simp add: boundedHiker_def updateHiker_fields)

lemma leader_forward:
  "0 \<le> dt \<Longrightarrow> 0 \<le> v \<Longrightarrow> hiker_x h \<le> hiker_x (updateHiker dt st t v None h)"
  by (simp add: updateHiker_fields setSpeed_def)

lemma follower_speed_bounds:
  assumes b: "boundedHiker h" and v: "0.8 \<le> v" "v \<le> 2" and gap: "0 < hiker_x a - hiker_x h"
  shows "0 \<le> currentSpeed (setSpeed v (Some a) h)"
    and "currentSpeed (setSpeed v (Some a) h) * 10 < hiker_x a - hiker_x h"
proof -
  let ?g = "hiker_x a - hiker_x h"
  let ?t = "min (baseSpeed h + offloadBoost h) v"
  have t: "0 < ?t" "?t \<le> 2" using b v by (auto simp add: boundedHiker_def)
  show "0 \<le> currentSpeed (setSpeed v (Some a) h)"
    using b t by (auto simp add: setSpeed_def Let_def spacing_def boundedHiker_def)
  show "currentSpeed (setSpeed v (Some a) h) * 10 < ?g"
  proof (cases "?g < 48")
    case True
    have "?t * (?g / 60) * 10 = ?g * (?t / 6)" by simp
    also have "\<dots> \<le> ?g * (2 / 6)" using t gap by (intro mult_left_mono) simp_all
    also have "\<dots> < ?g" using gap by simp
    finally have "?t * (?g / 60) * 10 < ?g" .
    moreover have "0 \<le> ?t * (?g / 60)" using t gap by simp
    ultimately show ?thesis using True
      by (simp add: setSpeed_def Let_def spacing_def max_def)
  next
    case False
    then show ?thesis using b t
      by (auto simp add: setSpeed_def Let_def spacing_def boundedHiker_def)
  qed
qed

lemma follower_step:
  assumes b: "boundedHiker h" and v: "0.8 \<le> v" "v \<le> 2" and dt: "0 < dt" "dt \<le> 0.1"
    and gap: "hiker_x h < hiker_x a"
  shows "hiker_x h \<le> hiker_x (updateHiker dt st t v (Some a) h)"
    and "hiker_x (updateHiker dt st t v (Some a) h) < hiker_x a"
proof -
  let ?c = "currentSpeed (setSpeed v (Some a) h)"
  have g: "0 < hiker_x a - hiker_x h" using gap by simp
  have c0: "0 \<le> ?c" and c1: "?c * 10 < hiker_x a - hiker_x h"
    using follower_speed_bounds [OF b v g] by simp_all
  have "0 \<le> ?c * 100 * dt" using c0 dt by simp
  then show "hiker_x h \<le> hiker_x (updateHiker dt st t v (Some a) h)"
    by (simp add: updateHiker_fields)
  have "?c * 100 * dt = (?c * 10) * (10 * dt)" by simp
  also have "\<dots> \<le> (?c * 10) * 1" using c0 dt by (intro mult_left_mono) simp_all
  finally have "?c * 100 * dt \<le> ?c * 10" by simp
  with c1 have "?c * 100 * dt < hiker_x a - hiker_x h" by linarith
  then show "hiker_x (updateHiker dt st t v (Some a) h) < hiker_x a"
    by (simp add: updateHiker_fields)
qed

subsection \<open>The loop over the hikers\<close>

lemma forEachHiker_length: "length (forEachHiker dt st t v ahead hs) = length hs"
  by (induction hs arbitrary: ahead) (simp_all add: Let_def)


lemma behind_mono: "behind b hs \<Longrightarrow> b \<le> b' \<Longrightarrow> behind b' hs"
  by (cases hs) auto

lemma forEachHiker_behind:
  assumes "\<forall>h \<in> set hs. boundedHiker h" and "0.8 \<le> v" "v \<le> 2" and "0 < dt" "dt \<le> 0.1"
    and "behind (hiker_x a) hs"
  shows "behind (hiker_x a) (forEachHiker dt st t v (Some a) hs)"
  using assms
proof (induction hs arbitrary: a)
  case Nil
  then show ?case by simp
next
  case (Cons h rest)
  let ?h' = "updateHiker dt st t v (Some a) h"
  from Cons.prems have b: "boundedHiker h" and gap: "hiker_x h < hiker_x a"
    and rest: "behind (hiker_x h) rest" by simp_all
  have fwd: "hiker_x h \<le> hiker_x ?h'" and lt: "hiker_x ?h' < hiker_x a"
    using follower_step [OF b Cons.prems(2,3,4,5) gap] by simp_all
  have "behind (hiker_x ?h') rest" using rest fwd by (rule behind_mono)
  then have "behind (hiker_x ?h') (forEachHiker dt st t v (Some ?h') rest)"
    using Cons.IH [of ?h'] Cons.prems by simp
  then show ?case using lt by (simp add: Let_def)
qed

lemma forEachHiker_inLine:
  assumes "\<forall>h \<in> set hs. boundedHiker h" and "0.8 \<le> v" "v \<le> 2" and "0 < dt" "dt \<le> 0.1"
    and "inLine hs"
  shows "inLine (forEachHiker dt st t v None hs)"
proof (cases hs)
  case Nil
  then show ?thesis by simp
next
  case (Cons h rest)
  let ?h' = "updateHiker dt st t v None h"
  have "hiker_x h \<le> hiker_x ?h'" using assms by (intro leader_forward) simp_all
  moreover have "behind (hiker_x h) rest" using assms Cons by simp
  ultimately have "behind (hiker_x ?h') rest" by (rule behind_mono[rotated])
  then have "behind (hiker_x ?h') (forEachHiker dt st t v (Some ?h') rest)"
    using forEachHiker_behind [of rest v dt ?h'] assms Cons by simp
  then show ?thesis using Cons by (simp add: Let_def)
qed

lemma forEachHiker_bounded:
  "0 < dt \<Longrightarrow> dt \<le> 0.1 \<Longrightarrow> \<forall>h \<in> set hs. boundedHiker h
     \<Longrightarrow> \<forall>h \<in> set (forEachHiker dt st t v ahead hs). boundedHiker h"
  by (induction hs arbitrary: ahead) (simp_all add: Let_def updateHiker_bounded)

lemma hikerSystem_update_returns:
  "hikers s \<noteq> [] \<Longrightarrow> \<exists>s'. hikerSystem_update dt st t s = Inr s'"
  by (cases "hikers s") (simp_all add: hikerSystem_update_def Let_def)

lemma hikerSystem_update_leader:
  assumes "hikers s \<noteq> []"
  shows "\<exists>s'. hikerSystem_update dt st t s = Inr s' \<and> hikers s' \<noteq> []
     \<and> offloadBoost (hikers s' ! 0) = offloadBoost (decayBoost dt (hikers s ! 0))"
proof (cases "hikers s")
  case Nil
  then show ?thesis using assms by simp
next
  case (Cons herbie rest)
  then show ?thesis by (simp add: hikerSystem_update_def Let_def updateHiker_fields)
qed

subsection \<open>The invariant of the reachable states\<close>

lemma caravanInv_init: "caravanInv (hikerSystem_init startX startY rnd s0)"
  by (simp add: caravanInv_def hikerSystem_init_def baseSpeeds_def mkHiker_def boundedHiker_def
      spacing_def split: prod.splits)

lemma caravanInv_update:
  assumes "caravanInv s" "0 < dt" "dt \<le> 0.1" "hikerSystem_update dt st t s = Inr s'"
  shows "caravanInv s'"
proof (cases "hikers s")
  case Nil
  then show ?thesis using assms by (simp add: hikerSystem_update_def)
next
  case (Cons herbie rest)
  let ?v = "baseSpeed herbie + offloadBoost herbie"
  have hb: "boundedHiker herbie" using assms(1) Cons by (simp add: caravanInv_def)
  then have v: "0.8 \<le> ?v" "?v \<le> 2" by (simp_all add: boundedHiker_def)
  have s': "hikers s' = forEachHiker dt st t ?v None (hikers s)"
    using assms(4) Cons by (auto simp add: hikerSystem_update_def Let_def)
  show ?thesis
    unfolding caravanInv_def s'
    using forEachHiker_bounded [OF assms(2,3), of "hikers s" st t ?v None]
      forEachHiker_inLine [OF _ v assms(2,3), of "hikers s" st t] assms(1)
    by (simp add: caravanInv_def)
qed

lemma behind_update:
  "behind b hs \<Longrightarrow> hiker_x h' = hiker_x (hs ! i) \<Longrightarrow> behind b (hs[i := h'])"
proof (induction hs arbitrary: b i)
  case Nil
  then show ?case by simp
next
  case (Cons h rest)
  then show ?case by (cases i) auto
qed

lemma inLine_update:
  "inLine hs \<Longrightarrow> hiker_x h' = hiker_x (hs ! i) \<Longrightarrow> inLine (hs[i := h'])"
  by (cases hs; cases i) (auto simp add: behind_update)

lemma behind_map:
  "behind b hs \<Longrightarrow> (\<And>h. hiker_x (f h) = hiker_x h) \<Longrightarrow> behind b (map f hs)"
  by (induction hs arbitrary: b) auto

lemma inLine_map:
  "inLine hs \<Longrightarrow> (\<And>h. hiker_x (f h) = hiker_x h) \<Longrightarrow> inLine (map f hs)"
  by (cases hs) (auto simp add: behind_map)

lemma caravanInv_triggerPulse: "caravanInv s \<Longrightarrow> caravanInv (triggerPulse s)"
  by (auto simp add: caravanInv_def triggerPulse_def boundedHiker_def intro: inLine_map)

lemma caravanInv_offload:
  assumes "caravanInv s" "offloadHiker i s = Inr s'"
  shows "caravanInv s'"
proof (cases "i = herbieIndex \<or> i \<ge> length (hikers s)")
  case True
  then show ?thesis using assms by (auto simp add: offloadHiker_def split: if_splits)
next
  case False
  let ?hs1 = "(hikers s)[i := (hikers s ! i)\<lparr>offloadBoost := - 0.2\<rparr>]"
  let ?hs2 = "?hs1[herbieIndex := (?hs1 ! herbieIndex)\<lparr>offloadBoost := max (offloadBoost (?hs1 ! herbieIndex)) 0.4\<rparr>]"
  have s': "s' = triggerPulse (s\<lparr>hikers := ?hs2\<rparr>)"
    using assms(2) False by (simp add: offloadHiker_def Let_def)
  have i: "i < length (hikers s)" and i0: "0 < length (hikers s)" using False by auto
  have b1: "\<forall>h \<in> set ?hs1. boundedHiker h"
  proof
    fix h assume "h \<in> set ?hs1"
    then have "h = (hikers s ! i)\<lparr>offloadBoost := - 0.2\<rparr> \<or> h \<in> set (hikers s)"
      using set_update_subset_insert [of "hikers s" i] by auto
    moreover have "boundedHiker (hikers s ! i)" using assms(1) i by (simp add: caravanInv_def)
    ultimately show "boundedHiker h" using assms(1) by (auto simp add: caravanInv_def boundedHiker_def)
  qed
  have b2: "\<forall>h \<in> set ?hs2. boundedHiker h"
  proof
    fix h assume "h \<in> set ?hs2"
    then have "h = (?hs1 ! herbieIndex)\<lparr>offloadBoost := max (offloadBoost (?hs1 ! herbieIndex)) 0.4\<rparr> \<or> h \<in> set ?hs1"
      using set_update_subset_insert [of ?hs1 herbieIndex] by auto
    moreover have "boundedHiker (?hs1 ! herbieIndex)" using b1 i0 by (simp add: herbieIndex_def)
    ultimately show "boundedHiker h" using b1 by (auto simp add: boundedHiker_def)
  qed
  have l1: "inLine ?hs1" using assms(1) by (intro inLine_update) (simp_all add: caravanInv_def)
  have l2: "inLine ?hs2" using l1 by (rule inLine_update) simp
  have "caravanInv (s\<lparr>hikers := ?hs2\<rparr>)" using b2 l2 by (simp add: caravanInv_def)
  then show ?thesis unfolding s' by (rule caravanInv_triggerPulse)
qed

lemma reachable_caravanInv: "reachableHikers s \<Longrightarrow> caravanInv s"
proof (induction rule: reachableHikers.induct)
  case (r_init startX startY rnd s0)
  show ?case by (rule caravanInv_init)
next
  case (r_update s deltaTime st t s')
  then show ?case by (auto intro: caravanInv_update)
next
  case (r_offload s hikerIndex s')
  then show ?case by (auto intro: caravanInv_offload)
next
  case (r_pulse s)
  then show ?case by (auto intro: caravanInv_triggerPulse)
next
  case (r_label s seconds)
  then show ?case by (simp add: caravanInv_def setHerbieLabel_def)
qed

lemma behind_nth:
  "behind b hs \<Longrightarrow> i < length hs \<Longrightarrow> hiker_x (hs ! i) < (if i = 0 then b else hiker_x (hs ! (i - 1)))"
proof (induction hs arbitrary: b i)
  case Nil
  then show ?case by simp
next
  case (Cons h rest)
  show ?case
  proof (cases i)
    case 0
    then show ?thesis using Cons.prems by simp
  next
    case (Suc j)
    then show ?thesis using Cons.IH [of "hiker_x h" j] Cons.prems by (cases j) auto
  qed
qed

lemma inLine_nth:
  "inLine hs \<Longrightarrow> 0 < i \<Longrightarrow> i < length hs \<Longrightarrow> hiker_x (hs ! i) < hiker_x (hs ! (i - 1))"
  using behind_nth [of "hiker_x (hd hs)" "tl hs" "i - 1"]
  by (cases hs; cases i) (auto simp add: nth_Cons split: nat.splits)

lemma caravanStart_hikers: "length (hikers caravanStart) = 5"
  by (simp add: caravanStart_def hikerSystem_init_def baseSpeeds_def)

lemma offloadHiker_follower:
  assumes "0 < i" "i < length (hikers s)"
  shows "\<exists>s'. offloadHiker i s = Inr s' \<and> length (hikers s') = length (hikers s)
           \<and> offloadBoost (hikers s' ! i) = - 0.2
           \<and> offloadBoost (hikers s' ! 0) = max (offloadBoost (hikers s ! 0)) 0.4"
proof -
  have "hikers s \<noteq> []" using assms by auto
  then show ?thesis using assms
    by (simp add: offloadHiker_def herbieIndex_def triggerPulse_def Let_def nth_list_update)
qed

text \<open>
  C1. No overtaking: in every state reachable from \<open>init\<close> by ticks with a time step in
  \<open>(0, 0.1]\<close> (and by offloads and pulses), every follower \<open>i > 0\<close> is strictly behind
  the hiker at \<open>i - 1\<close>.
\<close>

theorem no_overtaking:
  assumes "reachableHikers s"
  shows "\<forall>i. 0 < i \<and> i < length (hikers s) \<longrightarrow> hiker_x (hikers s ! i) < hiker_x (hikers s ! (i - 1))"
proof (intro allI impI)
  fix i assume i: "0 < i \<and> i < length (hikers s)"
  have "inLine (hikers s)" using reachable_caravanInv [OF assms] by (simp add: caravanInv_def)
  then show "hiker_x (hikers s ! i) < hiker_x (hikers s ! (i - 1))"
    using i by (intro inLine_nth) simp_all
qed

theorem no_overtaking_witness:
  "\<exists>s'. hikerSystem_update 0.1 emptyStore newTerrain caravanStart = Inr s'
     \<and> reachableHikers s' \<and> hiker_x (hikers s' ! 1) < hiker_x (hikers s' ! 0)"
proof -
  have "hikers caravanStart \<noteq> []" using caravanStart_hikers by auto
  then obtain s' where u: "hikerSystem_update 0.1 emptyStore newTerrain caravanStart = Inr s'"
    using hikerSystem_update_returns by blast
  have "reachableHikers caravanStart" by (simp add: caravanStart_def r_init)
  then have r: "reachableHikers s'" using _ _ u by (rule r_update) simp_all
  have "length (hikers s') = 5"
    using u caravanStart_hikers
    by (auto simp add: hikerSystem_update_def forEachHiker_length Let_def split: list.splits)
  then have "hiker_x (hikers s' ! 1) < hiker_x (hikers s' ! (1 - 1))"
    using no_overtaking [OF r, rule_format, of 1] by simp
  then show ?thesis using u r by simp
qed

subsection \<open>The speed rule\<close>





subsection \<open>Offloading\<close>

lemma reachable_leader_boost:
  assumes "reachableHikers s" "hikers s \<noteq> []"
  shows "offloadBoost (hikers s ! 0) \<le> 0.4"
proof -
  have "hikers s ! 0 \<in> set (hikers s)" using assms(2) by simp
  then have "boundedHiker (hikers s ! 0)"
    using reachable_caravanInv [OF assms(1)] by (simp add: caravanInv_def)
  then show ?thesis by (simp add: boundedHiker_def)
qed

text \<open>
  C5. \<open>offloadHiker\<close> on the leader index changes nothing. On a follower index it sets
  the follower's boost to \<open>- 0.2\<close> and the leader's to the maximum of its boost and
  \<open>0.4\<close>; a second call leaves both as they are. So after two calls the leader's boost
  is exactly \<open>0.4\<close> whenever it was at most \<open>0.4\<close> before, as it is in every reachable
  state.
\<close>

theorem offloadHiker_semantics:
  "offloadHiker herbieIndex s = Inr s
   \<and> (0 < i \<and> i < length (hikers s) \<longrightarrow>
        (\<exists>s' s''. offloadHiker i s = Inr s' \<and> offloadHiker i s' = Inr s''
           \<and> offloadBoost (hikers s' ! i) = - 0.2
           \<and> offloadBoost (hikers s' ! 0) = max (offloadBoost (hikers s ! 0)) 0.4
           \<and> offloadBoost (hikers s'' ! i) = - 0.2
           \<and> offloadBoost (hikers s'' ! 0) = max (offloadBoost (hikers s ! 0)) 0.4
           \<and> (offloadBoost (hikers s ! 0) \<le> 0.4 \<longrightarrow> offloadBoost (hikers s'' ! 0) = 0.4)
           \<and> (reachableHikers s \<longrightarrow> offloadBoost (hikers s'' ! 0) = 0.4)))"
proof (intro conjI impI)
  show "offloadHiker herbieIndex s = Inr s" by (simp add: offloadHiker_def)
next
  assume i: "0 < i \<and> i < length (hikers s)"
  obtain s' where 1: "offloadHiker i s = Inr s'" "length (hikers s') = length (hikers s)"
    "offloadBoost (hikers s' ! i) = - 0.2"
    "offloadBoost (hikers s' ! 0) = max (offloadBoost (hikers s ! 0)) 0.4"
    using offloadHiker_follower [of i s] i by blast
  obtain s'' where 2: "offloadHiker i s' = Inr s''"
    "offloadBoost (hikers s'' ! i) = - 0.2"
    "offloadBoost (hikers s'' ! 0) = max (offloadBoost (hikers s' ! 0)) 0.4"
    using offloadHiker_follower [of i s'] i 1(2) by auto
  have m: "offloadBoost (hikers s'' ! 0) = max (offloadBoost (hikers s ! 0)) 0.4"
    using 1(4) 2(3) by simp
  then have le: "offloadBoost (hikers s ! 0) \<le> 0.4 \<longrightarrow> offloadBoost (hikers s'' ! 0) = 0.4"
    by simp
  have "hikers s \<noteq> []" using i by auto
  then have "reachableHikers s \<longrightarrow> offloadBoost (hikers s'' ! 0) = 0.4"
    using reachable_leader_boost [of s] le by blast
  then show "\<exists>s' s''. offloadHiker i s = Inr s' \<and> offloadHiker i s' = Inr s''
           \<and> offloadBoost (hikers s' ! i) = - 0.2
           \<and> offloadBoost (hikers s' ! 0) = max (offloadBoost (hikers s ! 0)) 0.4
           \<and> offloadBoost (hikers s'' ! i) = - 0.2
           \<and> offloadBoost (hikers s'' ! 0) = max (offloadBoost (hikers s ! 0)) 0.4
           \<and> (offloadBoost (hikers s ! 0) \<le> 0.4 \<longrightarrow> offloadBoost (hikers s'' ! 0) = 0.4)
           \<and> (reachableHikers s \<longrightarrow> offloadBoost (hikers s'' ! 0) = 0.4)"
    using 1 2 m le by blast
qed

theorem offloadHiker_semantics_witness:
  "0 < (2::nat) \<and> 2 < length (hikers caravanStart) \<and> offloadBoost (hikers caravanStart ! 0) \<le> 0.4
   \<and> reachableHikers caravanStart
   \<and> (\<exists>s' s''. offloadHiker 2 caravanStart = Inr s' \<and> offloadHiker 2 s' = Inr s''
         \<and> offloadBoost (hikers s'' ! 2) = - 0.2 \<and> offloadBoost (hikers s'' ! 0) = 0.4)"
proof -
  have i: "0 < (2::nat) \<and> 2 < length (hikers caravanStart)" by (simp add: caravanStart_hikers)
  have b: "offloadBoost (hikers caravanStart ! 0) \<le> 0.4"
    by (simp add: caravanStart_def hikerSystem_init_def baseSpeeds_def mkHiker_def)
  have r: "reachableHikers caravanStart" by (simp add: caravanStart_def r_init)
  show ?thesis
    using offloadHiker_semantics [of caravanStart 2, THEN conjunct2, rule_format, OF i] i b r
    by blast
qed

subsection \<open>The flow multiplier\<close>

lemma spacingLoop_eq:
  "spacingLoop hs (tot, cnt) =
     (tot + sum_list (adjacentSpacings hs), cnt + length (adjacentSpacings hs))"
  by (induction hs arbitrary: tot cnt rule: adjacentSpacings.induct) simp_all

lemma adjacentSpacings_length: "length (adjacentSpacings hs) = length hs - 1"
  by (induction hs rule: adjacentSpacings.induct) simp_all

lemma getFlowMultiplier_few:
  assumes "length (hikers s) < 2"
  shows "getFlowMultiplier s = NaN"
proof -
  have "hikers s = [] \<or> (\<exists>a. hikers s = [a])"
    using assms by (cases "hikers s"; cases "tl (hikers s)") auto
  then have "spacingLoop (hikers s) (0, 0) = (0, 0)" by auto
  then show ?thesis by (simp add: getFlowMultiplier_def js_div_def)
qed

text \<open>
  C3, as the code has it. With at least two hikers \<open>getFlowMultiplier\<close> returns
  \<open>clamp (3.0 - |avgSpacing - 60| / 60) 1.0 3.0\<close> over the adjacent spacings, a number
  in \<open>[1.0, 3.0]\<close>. With fewer than two hikers the loop does not run, the average is
  \<open>0 / 0\<close>, and the result is NaN (so it is not \<open>1.0\<close>).
\<close>

theorem getFlowMultiplier_range:
  "(2 \<le> length (hikers s) \<longrightarrow>
      getFlowMultiplier s = Num (clamp (3.0 - \<bar>averageSpacing (hikers s) - 60\<bar> / 60) 1.0 3.0)
      \<and> 1.0 \<le> clamp (3.0 - \<bar>averageSpacing (hikers s) - 60\<bar> / 60) 1.0 3.0
      \<and> clamp (3.0 - \<bar>averageSpacing (hikers s) - 60\<bar> / 60) 1.0 3.0 \<le> 3.0)
   \<and> (length (hikers s) < 2 \<longrightarrow>
      getFlowMultiplier s = NaN \<and> getFlowMultiplier s \<noteq> Num 1.0)"
proof (intro conjI impI)
  assume l: "2 \<le> length (hikers s)"
  have n: "length (adjacentSpacings (hikers s)) \<noteq> 0"
    using l by (simp add: adjacentSpacings_length)
  show "getFlowMultiplier s = Num (clamp (3.0 - \<bar>averageSpacing (hikers s) - 60\<bar> / 60) 1.0 3.0)"
    using n by (simp add: getFlowMultiplier_def spacingLoop_eq js_div_def spacing_def clamp_def
        averageSpacing_def)
  show "1.0 \<le> clamp (3.0 - \<bar>averageSpacing (hikers s) - 60\<bar> / 60) 1.0 3.0"
    by (simp add: clamp_def)
  show "clamp (3.0 - \<bar>averageSpacing (hikers s) - 60\<bar> / 60) 1.0 3.0 \<le> 3.0"
    by (simp add: clamp_def)
next
  assume "length (hikers s) < 2"
  then show "getFlowMultiplier s = NaN" by (rule getFlowMultiplier_few)
next
  assume "length (hikers s) < 2"
  then show "getFlowMultiplier s \<noteq> Num 1.0" by (simp add: getFlowMultiplier_few)
qed

theorem getFlowMultiplier_range_witness:
  "2 \<le> length (hikers caravanStart) \<and> getFlowMultiplier caravanStart = Num 3
   \<and> length (hikers loneHiker) < 2 \<and> getFlowMultiplier loneHiker = NaN"
proof -
  have l: "2 \<le> length (hikers caravanStart)" by (simp add: caravanStart_hikers)
  have "averageSpacing (hikers caravanStart) = 60"
    by (simp add: averageSpacing_def caravanStart_def hikerSystem_init_def baseSpeeds_def
        mkHiker_def spacing_def)
  then have 1: "getFlowMultiplier caravanStart = Num 3"
    using getFlowMultiplier_range [of caravanStart, THEN conjunct1] l by (simp add: clamp_def)
  have f: "length (hikers loneHiker) < 2" by (simp add: loneHiker_def)
  have 2: "getFlowMultiplier loneHiker = NaN"
    using getFlowMultiplier_range [of loneHiker, THEN conjunct2] f by blast
  show ?thesis using l 1 f 2 by simp
qed

text \<open>
  C3, the degenerate case. With no hikers (the state the constructor leaves) the loop
  does not run, the average is \<open>0 / 0\<close>, and NaN passes through \<open>Math.abs\<close>,
  \<open>Math.max\<close> and \<open>Math.min\<close>: the result is NaN, not \<open>1.0\<close>.
\<close>

theorem getFlowMultiplier_no_agents:
  "length (hikers newHikerSystem) < 2 \<and> getFlowMultiplier newHikerSystem = NaN
   \<and> getFlowMultiplier newHikerSystem \<noteq> Num 1.0"
  by (simp add: newHikerSystem_def getFlowMultiplier_def js_div_def)

subsection \<open>The decay of the offload boost\<close>

lemma tick_leader:
  assumes "reachableHikers s" "hikers s \<noteq> []" "offloadBoost (hikers s ! 0) = b" "0.01 \<le> b - 0.048"
  shows "\<exists>s'. reachableHikers s' \<and> hikers s' \<noteq> [] \<and> offloadBoost (hikers s' ! 0) = b - 0.048"
proof -
  obtain s' where u: "hikerSystem_update 0.096 emptyStore newTerrain s = Inr s'" "hikers s' \<noteq> []"
    "offloadBoost (hikers s' ! 0) = offloadBoost (decayBoost 0.096 (hikers s ! 0))"
    using hikerSystem_update_leader [OF assms(2)] by blast
  have "reachableHikers s'" using assms(1) _ _ u(1) by (rule r_update) simp_all
  moreover have "offloadBoost (decayBoost 0.096 (hikers s ! 0)) = b - 0.048"
    using assms(3,4) by (simp add: decayBoost_def Let_def)
  ultimately show ?thesis using u by auto
qed

lemma offload_start:
  "\<exists>s. reachableHikers s \<and> hikers s \<noteq> [] \<and> offloadBoost (hikers s ! 0) = 0.4"
proof -
  have i: "0 < (1::nat) \<and> 1 < length (hikers caravanStart)" by (simp add: caravanStart_hikers)
  have "offloadBoost (hikers caravanStart ! 0) = 0"
    by (simp add: caravanStart_def hikerSystem_init_def baseSpeeds_def mkHiker_def)
  then obtain s' where s': "offloadHiker 1 caravanStart = Inr s'"
    "length (hikers s') = length (hikers caravanStart)" "offloadBoost (hikers s' ! 0) = 0.4"
    using offloadHiker_follower [of 1 caravanStart] i by auto
  have "reachableHikers s'"
    using _ s'(1) by (rule r_offload) (simp add: caravanStart_def r_init)
  then show ?thesis using s' caravanStart_hikers by auto
qed

text \<open>
  Once the boost has crossed zero, ticks of the same length take it back and forth
  between \<open>- 0.032\<close> and \<open>0.016\<close>: it does not return to zero.
\<close>

lemma decay_cycle:
  "offloadBoost (decayBoost 0.096 (h\<lparr>offloadBoost := - 0.032\<rparr>)) = 0.016"
  "offloadBoost (decayBoost 0.096 (h\<lparr>offloadBoost := 0.016\<rparr>)) = - 0.032"
  by (simp_all add: decayBoost_def Let_def)

text \<open>
  C7. The decay does cross zero. After \<open>offloadHiker(1)\<close> the leader's boost is
  \<open>0.4\<close>; nine ticks of 0.096 seconds take it to \<open>0.016\<close> after eight and to
  \<open>0.016 - 0.048 = - 0.032\<close> after the ninth, whose magnitude is not below the
  threshold \<open>0.01\<close> at which the code resets the boost to zero. A boost that was only
  ever set to a positive value has become negative.
\<close>

theorem decay_overshoots_zero:
  "\<exists>s. reachableHikers s \<and> offloadBoost (hikers s ! herbieIndex) = - 0.032"
proof -
  obtain s0 where 0: "reachableHikers s0" "hikers s0 \<noteq> []" "offloadBoost (hikers s0 ! 0) = 0.4"
    using offload_start by blast
  obtain s1 where 1: "reachableHikers s1" "hikers s1 \<noteq> []" "offloadBoost (hikers s1 ! 0) = 0.352"
    using tick_leader [OF 0] by auto
  obtain s2 where 2: "reachableHikers s2" "hikers s2 \<noteq> []" "offloadBoost (hikers s2 ! 0) = 0.304"
    using tick_leader [OF 1] by auto
  obtain s3 where 3: "reachableHikers s3" "hikers s3 \<noteq> []" "offloadBoost (hikers s3 ! 0) = 0.256"
    using tick_leader [OF 2] by auto
  obtain s4 where 4: "reachableHikers s4" "hikers s4 \<noteq> []" "offloadBoost (hikers s4 ! 0) = 0.208"
    using tick_leader [OF 3] by auto
  obtain s5 where 5: "reachableHikers s5" "hikers s5 \<noteq> []" "offloadBoost (hikers s5 ! 0) = 0.16"
    using tick_leader [OF 4] by auto
  obtain s6 where 6: "reachableHikers s6" "hikers s6 \<noteq> []" "offloadBoost (hikers s6 ! 0) = 0.112"
    using tick_leader [OF 5] by auto
  obtain s7 where 7: "reachableHikers s7" "hikers s7 \<noteq> []" "offloadBoost (hikers s7 ! 0) = 0.064"
    using tick_leader [OF 6] by auto
  obtain s8 where 8: "reachableHikers s8" "hikers s8 \<noteq> []" "offloadBoost (hikers s8 ! 0) = 0.016"
    using tick_leader [OF 7] by auto
  obtain s9 where 9: "hikerSystem_update 0.096 emptyStore newTerrain s8 = Inr s9"
    "offloadBoost (hikers s9 ! 0) = offloadBoost (decayBoost 0.096 (hikers s8 ! 0))"
    using hikerSystem_update_leader [OF 8(2)] by blast
  have "reachableHikers s9" using 8(1) _ _ 9(1) by (rule r_update) simp_all
  moreover have "offloadBoost (decayBoost 0.096 (hikers s8 ! 0)) = - 0.032"
    using 8(3) by (simp add: decayBoost_def Let_def)
  ultimately show ?thesis using 9(2) by (auto simp add: herbieIndex_def)
qed


section \<open>Properties of the terrain\<close>

subsection \<open>The invariant\<close>

lemma terrainInv_generateSegment:
  assumes "terrainInv ch base w"
  shows "terrainInv ch base (generateSegment w)"
proof -
  obtain st t where w: "w = (st, t)" by (cases w)
  from assms obtain k where k: "base \<le> k" "k \<le> segNext st" "segments t = [k..<segNext st]"
    by (auto simp add: terrainInv_def w)
  have "base \<le> k \<and> k \<le> Suc (segNext st) \<and> segments t @ [segNext st] = [k..<Suc (segNext st)]"
    using k by simp
  then have seg: "\<exists>k. base \<le> k \<and> k \<le> Suc (segNext st) \<and> segments t @ [segNext st] = [k..<Suc (segNext st)]"
    by blast
  have nx: "nextSegmentX t + segmentWidth = segmentWidth * real (Suc (segNext st) - base)"
    using assms by (simp add: terrainInv_def w Suc_diff_le algebra_simps)
  have objs: "\<forall>a. base \<le> a \<and> a < Suc (segNext st) \<longrightarrow>
        seg_x (((segObjs st)(segNext st := \<lparr>seg_x = nextSegmentX t, seg_y = baseY t,
            seg_width = segmentWidth, seg_height = 20, hasGap = False\<rparr>)) a)
          = segmentWidth * real (a - base)
        \<and> seg_y (((segObjs st)(segNext st := \<lparr>seg_x = nextSegmentX t, seg_y = baseY t,
            seg_width = segmentWidth, seg_height = 20, hasGap = False\<rparr>)) a) = ch * 0.7
        \<and> seg_width (((segObjs st)(segNext st := \<lparr>seg_x = nextSegmentX t, seg_y = baseY t,
            seg_width = segmentWidth, seg_height = 20, hasGap = False\<rparr>)) a) = segmentWidth"
    using assms by (auto simp add: terrainInv_def w less_Suc_eq)
  show ?thesis
    unfolding terrainInv_def w generateSegment_def Let_def prod.case
    using assms seg nx objs by (simp add: terrainInv_def w)
qed

lemma terrainInv_generateSegments:
  "terrainInv ch base w \<Longrightarrow> terrainInv ch base (generateSegments n w)"
  by (induction n arbitrary: w) (simp_all add: terrainInv_generateSegment)

lemma terrainInv_init: "terrainInv ch (segNext st0) (terrain_init cw ch (st0, t0))"
  unfolding terrain_init_def prod.case
  by (rule terrainInv_generateSegments) (auto simp add: terrainInv_def intro: exI [of _ "segNext st0"])

lemma terrainInv_extendSegments:
  "terrainInv ch base w \<Longrightarrow> terrainInv ch base (extendSegments r w)"
proof (induction r w rule: extendSegments.induct)
  case (1 rightEdge w)
  show ?case
  proof (cases "nextSegmentX (snd w) < rightEdge")
    case True
    then have "extendSegments rightEdge w = extendSegments rightEdge (generateSegment w)"
      by (subst extendSegments.simps) simp
    then show ?thesis using "1.IH" [OF True] "1.prems" by (simp add: terrainInv_generateSegment)
  next
    case False
    then have "extendSegments rightEdge w = w" by (subst extendSegments.simps) simp
    then show ?thesis using "1.prems" by simp
  qed
qed

lemma filter_upt_suffix:
  "k \<le> n \<Longrightarrow> (\<forall>a b. k \<le> a \<and> a \<le> b \<and> b < n \<and> P a \<longrightarrow> P b)
     \<Longrightarrow> \<exists>k'. k \<le> k' \<and> k' \<le> n \<and> filter P [k..<n] = [k'..<n]"
proof (induction n)
  case 0
  then have "k = 0" by simp
  then show ?case by simp
next
  case (Suc n)
  note mono = Suc.prems(2)
  show ?case
  proof (cases "k \<le> n")
    case False
    then have "k = Suc n" using Suc.prems(1) by simp
    then show ?thesis by (intro exI [of _ "Suc n"]) simp
  next
    case True
    have "\<forall>a b. k \<le> a \<and> a \<le> b \<and> b < n \<and> P a \<longrightarrow> P b"
      using mono less_Suc_eq by blast
    from Suc.IH [OF True this] obtain k' where k': "k \<le> k'" "k' \<le> n" "filter P [k..<n] = [k'..<n]"
      by blast
    have split: "[k..<Suc n] = [k..<n] @ [n]" using True by simp
    show ?thesis
    proof (cases "P n")
      case True
      then have "filter P [k..<Suc n] = [k'..<n] @ [n]" unfolding split using k'(3) by simp
      also have "\<dots> = [k'..<Suc n]" using k'(2) by simp
      finally show ?thesis using k'(1,2) by (intro exI [of _ k']) simp
    next
      case False
      have "\<forall>a \<in> set [k..<n]. \<not> P a"
      proof
        fix a assume "a \<in> set [k..<n]"
        then have "k \<le> a \<and> a \<le> n \<and> n < Suc n" by simp
        then show "\<not> P a" using mono False by blast
      qed
      then have "filter P [k..<n] = []" by (simp only: filter_empty_conv)
      then have "filter P [k..<Suc n] = []" unfolding split using False by simp
      then show ?thesis using \<open>k \<le> n\<close> by (intro exI [of _ "Suc n"]) simp
    qed
  qed
qed

lemma terrainInv_prune:
  assumes "terrainInv ch base (st, t)"
  shows "terrainInv ch base
     (st, t\<lparr>segments :=
            filter (\<lambda>a. seg_x (segObjs st a) + seg_width (segObjs st a) > c) (segments t)\<rparr>)"
proof -
  let ?P = "\<lambda>a. seg_x (segObjs st a) + seg_width (segObjs st a) > c"
  from assms obtain k where k: "base \<le> k" "k \<le> segNext st" "segments t = [k..<segNext st]"
    by (auto simp add: terrainInv_def)
  have x: "\<And>a. base \<le> a \<Longrightarrow> a < segNext st \<Longrightarrow>
      seg_x (segObjs st a) + seg_width (segObjs st a) = 150 * real (a - base) + 150"
    using assms by (simp add: terrainInv_def segmentWidth_def)
  have mono: "\<And>a b. k \<le> a \<Longrightarrow> a \<le> b \<Longrightarrow> b < segNext st \<Longrightarrow> ?P a \<Longrightarrow> ?P b"
  proof -
    fix a b assume ab: "k \<le> a" "a \<le> b" "b < segNext st" "?P a"
    have "real (a - base) \<le> real (b - base)" using ab by simp
    then show "?P b" using x [of a] x [of b] ab k by simp
  qed
  have "\<forall>a b. k \<le> a \<and> a \<le> b \<and> b < segNext st \<and> ?P a \<longrightarrow> ?P b"
    using mono by blast
  from filter_upt_suffix [of k "segNext st" ?P, OF k(2) this]
  obtain k' where "k \<le> k'" "k' \<le> segNext st" "filter ?P [k..<segNext st] = [k'..<segNext st]"
    by blast
  then have "\<exists>j. base \<le> j \<and> j \<le> segNext st \<and> filter ?P (segments t) = [j..<segNext st]"
    using k by (intro exI [of _ k']) simp
  then show ?thesis using assms by (simp add: terrainInv_def)
qed

lemma terrainInv_recycle:
  "terrainInv ch base w \<Longrightarrow> terrainInv ch base (recycleSegments w)"
  by (cases w) (simp add: recycleSegments_def terrainInv_prune)

lemma terrainInv_moveCamera:
  "terrainInv ch base (st, t) \<Longrightarrow> terrainInv ch base (st, moveCamera deltaTime herbieX t)"
  by (simp add: moveCamera_def terrainInv_def Let_def split: option.splits)

lemma terrainInv_update:
  assumes "terrainInv ch base (st, t)"
  shows "terrainInv ch base (terrain_update deltaTime distance herbieX (st, t))"
  unfolding terrain_update_def prod.case Let_def
  by (intro terrainInv_recycle terrainInv_extendSegments terrainInv_moveCamera assms)

lemma terrainInv_sameGround:
  "terrainInv ch base (st, t) \<Longrightarrow> sameGround st st' \<Longrightarrow> terrainInv ch base (st', t)"
  by (simp add: terrainInv_def sameGround_def)

lemma sameGround_refl: "sameGround st st"
  by (simp add: sameGround_def)

subsection \<open>What the obstacle system does to the store\<close>

lemma spawnObstacle_found:
  assumes "findSegment st t (cameraX t + canvasWidth t + 200) = Some a"
  shows "spawnObstacle t distance rand (st, os) =
     ((if chooseType distance rand = Gap
       then st\<lparr>segObjs := (segObjs st)(a := (segObjs st a)\<lparr>hasGap := True\<rparr>)\<rparr>
       else st)
      \<lparr>obsObjs := (obsObjs st)(obsNext st := mkObstacle (chooseType distance rand) a (segObjs st a)),
       obsNext := Suc (obsNext st)\<rparr>,
      os\<lparr>obstacles := obstacles os @ [obsNext st]\<rparr>)"
  using assms by (simp add: spawnObstacle_def Let_def)

lemma spawnObstacle_none:
  "findSegment st t (cameraX t + canvasWidth t + 200) = None
     \<Longrightarrow> spawnObstacle t distance rand (st, os) = (st, os)"
  by (simp add: spawnObstacle_def Let_def)

lemma mkObstacle_type: "obs_type (mkObstacle ty a sg) = ty"
  by (cases ty) simp_all

lemma spawnObstacle_sameGround:
  "sameGround st (fst (spawnObstacle t distance rand (st, os)))"
proof (cases "findSegment st t (cameraX t + canvasWidth t + 200)")
  case None
  then show ?thesis by (simp add: spawnObstacle_none sameGround_refl)
next
  case (Some a)
  then show ?thesis by (simp add: spawnObstacle_found sameGround_def)
qed

lemma ageObstacles_segs:
  "segObjs (ageObstacles deltaTime refs st) = segObjs st
   \<and> segNext (ageObstacles deltaTime refs st) = segNext st"
  unfolding ageObstacles_def by (induction refs arbitrary: st) simp_all

lemma obstacleSystem_update_quiet:
  "\<not> distance > nextObstacleDistance os \<Longrightarrow>
     obstacleSystem_update deltaTime t distance rand jitter (st, os) =
       (ageObstacles deltaTime (obstacles os) st,
        pruneObstacles (ageObstacles deltaTime (obstacles os) st) t os)"
  by (simp add: obstacleSystem_update_def Let_def)


lemma obstacleSystem_update_sameGround:
  "sameGround st (fst (obstacleSystem_update deltaTime t distance rand jitter (st, os)))"
proof (cases "distance > nextObstacleDistance os")
  case False
  then show ?thesis
    by (simp add: obstacleSystem_update_quiet sameGround_def ageObstacles_segs)
next
  case True
  obtain st' os' where sp: "spawnObstacle t distance rand (st, os) = (st', os')"
    by (cases "spawnObstacle t distance rand (st, os)")
  have "sameGround st st'" using spawnObstacle_sameGround [of st t distance rand os] sp by simp
  moreover have "fst (obstacleSystem_update deltaTime t distance rand jitter (st, os)) =
      ageObstacles deltaTime
        (obstacles (os'\<lparr>nextObstacleDistance :=
            distance + (baseSpawnRate - (baseSpawnRate - minSpawnRate) * difficultyAt distance)
              + jitter * 80\<rparr>)) st'"
    using True by (simp add: obstacleSystem_update_def Let_def sp)
  ultimately show ?thesis by (simp add: sameGround_def ageObstacles_segs)
qed

lemma clearObstacle_sameGround:
  "sameGround st (fst (snd (clearObstacle a now (st, os))))"
  by (simp add: clearObstacle_def Let_def sameGround_def split: option.splits)


lemma reachableWorld_terrainInv:
  "reachableWorld cw ch st0 w \<Longrightarrow> terrainInv ch (segNext st0) (fst w, fst (snd w))"
proof (induction rule: reachableWorld.induct)
  case (w_start cw ch st0 t0 st t os0)
  then show ?case using terrainInv_init [of ch st0 cw t0] by simp
next
  case (w_terrain cw ch st0 st t os deltaTime distance herbieX st' t')
  then show ?case using terrainInv_update [of ch "segNext st0" st t deltaTime distance herbieX] by simp
next
  case (w_obstacles cw ch st0 st t os deltaTime distance rand jitter st' os')
  then show ?case
    using obstacleSystem_update_sameGround [of st deltaTime t distance rand jitter os]
    by (auto intro: terrainInv_sameGround)
next
  case (w_clear cw ch st0 st t os a now ok st' os')
  then show ?case
    using clearObstacle_sameGround [of st a now os] by (auto intro: terrainInv_sameGround)
qed

subsection \<open>Looking up a segment\<close>

lemma find_unique:
  "a \<in> set xs \<Longrightarrow> P a \<Longrightarrow> (\<forall>b \<in> set xs. P b \<longrightarrow> b = a) \<Longrightarrow> find P xs = Some a"
proof (induction xs)
  case Nil
  then show ?case by simp
next
  case (Cons y ys)
  show ?case
  proof (cases "P y")
    case True
    then have "y = a" using Cons.prems(3) by simp
    then show ?thesis using True by simp
  next
    case False
    then have "a \<in> set ys" using Cons.prems(1,2) by auto
    moreover have "\<forall>b \<in> set ys. P b \<longrightarrow> b = a" using Cons.prems(3) by simp
    ultimately have "find P ys = Some a" using Cons.IH Cons.prems(2) by blast
    then show ?thesis using False by simp
  qed
qed

lemma find_in_set: "find P xs = Some a \<Longrightarrow> a \<in> set xs \<and> P a"
  by (induction xs) (auto split: if_splits)

lemma real_index_unique:
  fixes x :: real
  assumes "150 * real i \<le> x" "x < 150 * real i + 150" "150 * real j \<le> x" "x < 150 * real j + 150"
  shows "i = j"
proof -
  have "real i < real j + 1" "real j < real i + 1" using assms by simp_all
  then have "i < j + 1" "j < i + 1" by (simp_all only: of_nat_less_iff [symmetric, where ?'a = real] of_nat_add of_nat_1)
  then show ?thesis by simp
qed

subsection \<open>The concrete states\<close>


lemma terrainStart_eval:
  "segNext (fst terrainStart) = 10" "segments (snd terrainStart) = [0, 1, 2, 3, 4, 5, 6, 7, 8, 9]"
  "cameraX (snd terrainStart) = 0" "canvasWidth (snd terrainStart) = 800"
  "seg_x (segObjs (fst terrainStart) 6) = 900" "seg_width (segObjs (fst terrainStart) 6) = 150"
  "hasGap (segObjs (fst terrainStart) 6) = False"
  "findSegment (fst terrainStart) (snd terrainStart) 1000 = Some 6"
  by (simp_all add: findSegment_def terrainStart_def terrain_init_def emptyStore_def newTerrain_def
      generateSegment_def segmentWidth_def eval_nat_numeral Let_def)

lemma terrainStart_spawn:
  "findSegment (fst terrainStart) (snd terrainStart)
     (cameraX (snd terrainStart) + canvasWidth (snd terrainStart) + 200) = Some 6"
  by (simp add: terrainStart_eval)

lemma reachable_start: "reachableWorld 800 600 emptyStore (fst terrainStart, snd terrainStart, obstaclesStart)"
  unfolding obstaclesStart_def
  by (rule w_start [of 800 600 emptyStore newTerrain]) (simp add: terrainStart_def)

lemma spawnedGap_eval:
  "obstacles (snd spawnedGap) = [0]"
  "obs_type (obsObjs (fst spawnedGap) 0) = Gap"
  "obs_segment (obsObjs (fst spawnedGap) 0) = Some 6"
  "cleared (obsObjs (fst spawnedGap) 0) = False"
  "clearing (obsObjs (fst spawnedGap) 0) = False"
  "hasGap (segObjs (fst spawnedGap) 6) = True"
proof -
  have ty: "chooseType 0 (4 / 5) = Gap" by (simp add: chooseType_def difficultyAt_def)
  have e: "obsNext (fst terrainStart) = 0" "obstacles obstaclesStart = []"
    by (simp_all add: terrainStart_def terrain_init_def emptyStore_def newTerrain_def
        generateSegment_def eval_nat_numeral Let_def obstaclesStart_def obstacleSystem_init_def)
  note sp = spawnObstacle_found [OF terrainStart_spawn, of 0 "0.8" obstaclesStart]
  show "obstacles (snd spawnedGap) = [0]" "obs_type (obsObjs (fst spawnedGap) 0) = Gap"
    "obs_segment (obsObjs (fst spawnedGap) 0) = Some 6"
    "cleared (obsObjs (fst spawnedGap) 0) = False"
    "clearing (obsObjs (fst spawnedGap) 0) = False"
    "hasGap (segObjs (fst spawnedGap) 6) = True"
    unfolding spawnedGap_def sp by (simp_all add: ty e)
qed

subsection \<open>Flat terrain\<close>

text \<open>
  C10. In every state of a run on a canvas of height \<open>ch\<close>: every segment generated in
  the run has \<open>y = ch * 0.7\<close> and width 150, and the \<open>n\<close>-th of them starts at
  \<open>150 * n\<close>; \<open>nextSegmentX\<close> is 150 times the number generated; each segment starts
  where the one generated before it ended; the array holds consecutive segments in order
  (contiguous, not overlapping, ordered by x); \<open>getYAtX\<close> never returns anything but
  \<open>ch * 0.7\<close>, and returns it for every x covered by a segment of the array without a
  gap.
\<close>

theorem flat_terrain:
  assumes "reachableWorld cw ch st0 (st, t, os)"
  shows "(\<forall>a. segNext st0 \<le> a \<and> a < segNext st \<longrightarrow>
            seg_y (segObjs st a) = ch * 0.7 \<and> seg_width (segObjs st a) = 150
            \<and> seg_x (segObjs st a) = 150 * real (a - segNext st0))
       \<and> nextSegmentX t = 150 * real (segNext st - segNext st0)
       \<and> (\<forall>a. segNext st0 \<le> a \<and> Suc a < segNext st \<longrightarrow>
            seg_x (segObjs st (Suc a)) = seg_x (segObjs st a) + seg_width (segObjs st a))
       \<and> (\<forall>i. i < length (segments t) \<longrightarrow>
            segNext st0 \<le> segments t ! i \<and> segments t ! i < segNext st
            \<and> (Suc i < length (segments t) \<longrightarrow> segments t ! Suc i = Suc (segments t ! i)))
       \<and> (\<forall>x y. getYAtX st t x = Some y \<longrightarrow> y = ch * 0.7)
       \<and> (\<forall>a x. a \<in> set (segments t) \<and> seg_x (segObjs st a) \<le> x
              \<and> x < seg_x (segObjs st a) + seg_width (segObjs st a) \<and> \<not> hasGap (segObjs st a)
            \<longrightarrow> getYAtX st t x = Some (ch * 0.7))
       \<and> canvasHeight t = ch"
proof -
  let ?b = "segNext st0"
  have inv: "terrainInv ch ?b (st, t)" using reachableWorld_terrainInv [OF assms] by simp
  then have objs: "\<And>a. ?b \<le> a \<Longrightarrow> a < segNext st \<Longrightarrow>
       seg_y (segObjs st a) = ch * 0.7 \<and> seg_width (segObjs st a) = 150
       \<and> seg_x (segObjs st a) = 150 * real (a - ?b)"
    and nx: "nextSegmentX t = 150 * real (segNext st - ?b)"
    and c7: "canvasHeight t = ch"
    by (simp_all add: terrainInv_def segmentWidth_def)
  from inv obtain k where k: "?b \<le> k" "k \<le> segNext st" "segments t = [k..<segNext st]"
    by (auto simp add: terrainInv_def)
  have members: "\<And>a. a \<in> set (segments t) \<Longrightarrow> ?b \<le> a \<and> a < segNext st"
    using k by simp
  have c1: "\<forall>a. ?b \<le> a \<and> a < segNext st \<longrightarrow>
            seg_y (segObjs st a) = ch * 0.7 \<and> seg_width (segObjs st a) = 150
            \<and> seg_x (segObjs st a) = 150 * real (a - ?b)"
    using objs by blast
  have c3: "\<forall>a. ?b \<le> a \<and> Suc a < segNext st \<longrightarrow>
            seg_x (segObjs st (Suc a)) = seg_x (segObjs st a) + seg_width (segObjs st a)"
  proof (intro allI impI)
    fix a assume a: "?b \<le> a \<and> Suc a < segNext st"
    then have "seg_x (segObjs st (Suc a)) = 150 * real (Suc a - ?b)"
      "seg_x (segObjs st a) = 150 * real (a - ?b)" "seg_width (segObjs st a) = 150"
      using objs [of a] objs [of "Suc a"] by simp_all
    then show "seg_x (segObjs st (Suc a)) = seg_x (segObjs st a) + seg_width (segObjs st a)"
      using a by (simp add: Suc_diff_le)
  qed
  have c4: "\<forall>i. i < length (segments t) \<longrightarrow>
            ?b \<le> segments t ! i \<and> segments t ! i < segNext st
            \<and> (Suc i < length (segments t) \<longrightarrow> segments t ! Suc i = Suc (segments t ! i))"
  proof (intro allI impI)
    fix i assume "i < length (segments t)"
    then have i: "k + i < segNext st" using k by simp
    then have "segments t ! i = k + i" using k(3) by simp
    moreover have "Suc i < length (segments t) \<longrightarrow> segments t ! Suc i = Suc (k + i)"
      using k(3) by simp
    ultimately show "?b \<le> segments t ! i \<and> segments t ! i < segNext st
            \<and> (Suc i < length (segments t) \<longrightarrow> segments t ! Suc i = Suc (segments t ! i))"
      using i k(1) by simp
  qed
  have c5: "\<forall>x y. getYAtX st t x = Some y \<longrightarrow> y = ch * 0.7"
  proof (intro allI impI)
    fix x y assume g: "getYAtX st t x = Some y"
    then obtain a where a: "findSegment st t x = Some a" "y = seg_y (segObjs st a)"
      by (auto simp add: getYAtX_def split: option.splits if_splits)
    then have "a \<in> set (segments t)" using find_in_set [of _ "segments t" a]
      by (simp add: findSegment_def)
    then show "y = ch * 0.7" using members [of a] objs [of a] a(2) by simp
  qed
  have c6: "\<forall>a x. a \<in> set (segments t) \<and> seg_x (segObjs st a) \<le> x
              \<and> x < seg_x (segObjs st a) + seg_width (segObjs st a) \<and> \<not> hasGap (segObjs st a)
            \<longrightarrow> getYAtX st t x = Some (ch * 0.7)"
  proof (intro allI impI)
    fix a x
    assume h: "a \<in> set (segments t) \<and> seg_x (segObjs st a) \<le> x
              \<and> x < seg_x (segObjs st a) + seg_width (segObjs st a) \<and> \<not> hasGap (segObjs st a)"
    let ?P = "\<lambda>c. x \<ge> seg_x (segObjs st c) \<and> x < seg_x (segObjs st c) + seg_width (segObjs st c)"
    have ra: "?b \<le> a \<and> a < segNext st" using h members by blast
    have xa: "150 * real (a - ?b) \<le> x" "x < 150 * real (a - ?b) + 150"
      using h objs [of a] ra by simp_all
    have uniq: "\<forall>c \<in> set (segments t). ?P c \<longrightarrow> c = a"
    proof (intro ballI impI)
      fix c assume c: "c \<in> set (segments t)" and pc: "?P c"
      have rc: "?b \<le> c \<and> c < segNext st" using c members by blast
      have "150 * real (c - ?b) \<le> x" "x < 150 * real (c - ?b) + 150"
        using pc objs [of c] rc by simp_all
      then have "c - ?b = a - ?b" using xa by (rule real_index_unique)
      then show "c = a" using ra rc by linarith
    qed
    have "find ?P (segments t) = Some a"
      using h uniq by (intro find_unique) simp_all
    then have "findSegment st t x = Some a" by (simp add: findSegment_def)
    then show "getYAtX st t x = Some (ch * 0.7)"
      using h objs [of a] ra by (simp add: getYAtX_def)
  qed
  show ?thesis using c1 nx c3 c4 c5 c6 c7 by blast
qed

theorem flat_terrain_witness:
  "reachableWorld 800 600 emptyStore (fst terrainStart, snd terrainStart, obstaclesStart)
   \<and> seg_y (segObjs (fst terrainStart) 6) = 420
   \<and> getYAtX (fst terrainStart) (snd terrainStart) 1000 = Some 420"
proof -
  note ft = flat_terrain [OF reachable_start]
  have "segNext emptyStore \<le> 6 \<and> 6 < segNext (fst terrainStart)"
    by (simp add: terrainStart_eval emptyStore_def)
  then have y: "seg_y (segObjs (fst terrainStart) 6) = 600 * 0.7"
    using ft [THEN conjunct1, rule_format, of 6] by simp
  have "6 \<in> set (segments (snd terrainStart)) \<and> seg_x (segObjs (fst terrainStart) 6) \<le> 1000
     \<and> 1000 < seg_x (segObjs (fst terrainStart) 6) + seg_width (segObjs (fst terrainStart) 6)
     \<and> \<not> hasGap (segObjs (fst terrainStart) 6)"
    by (simp add: terrainStart_eval)
  then have "getYAtX (fst terrainStart) (snd terrainStart) 1000 = Some (600 * 0.7)"
    using ft [THEN conjunct2, THEN conjunct2, THEN conjunct2, THEN conjunct2, THEN conjunct2,
        THEN conjunct1, rule_format, of 6 1000] by blast
  then show ?thesis using y reachable_start by simp
qed

section \<open>Properties of the obstacles\<close>

text \<open>
  C4, as the code has it. While the difficulty is below 0.2 the type drawn is wall for
  \<open>rand < 0.4\<close>, barrier for \<open>0.4 \<le> rand < 0.7\<close> and gap for \<open>rand \<ge> 0.7\<close>, never
  platform; and an obstacle spawned on a segment has the type drawn.
\<close>

theorem early_game_types:
  assumes "difficultyAt distance < 0.2"
  shows "chooseType distance rand = (if rand < 0.4 then Wall else if rand < 0.7 then Barrier else Gap)
    \<and> (\<forall>st t os a. findSegment st t (cameraX t + canvasWidth t + 200) = Some a \<longrightarrow>
          obstacles (snd (spawnObstacle t distance rand (st, os))) = obstacles os @ [obsNext st]
          \<and> obs_type (obsObjs (fst (spawnObstacle t distance rand (st, os))) (obsNext st))
              = (if rand < 0.4 then Wall else if rand < 0.7 then Barrier else Gap))"
proof -
  have ty: "chooseType distance rand = (if rand < 0.4 then Wall else if rand < 0.7 then Barrier else Gap)"
    using assms by (simp add: chooseType_def Let_def)
  have "obstacles (snd (spawnObstacle t distance rand (st, os))) = obstacles os @ [obsNext st]
          \<and> obs_type (obsObjs (fst (spawnObstacle t distance rand (st, os))) (obsNext st))
              = chooseType distance rand"
    if "findSegment st t (cameraX t + canvasWidth t + 200) = Some a" for st t os a
    unfolding spawnObstacle_found [OF that] by (simp add: mkObstacle_type)
  then show ?thesis unfolding ty by blast
qed

theorem early_game_types_witness:
  "difficultyAt 0 < 0.2
   \<and> obs_type (obsObjs (fst (spawnObstacle (snd terrainStart) 0 0.5 (fst terrainStart, obstaclesStart)))
        (obsNext (fst terrainStart))) = Barrier"
proof -
  have d: "difficultyAt 0 < 0.2" by (simp add: difficultyAt_def)
  show ?thesis
    using early_game_types [OF d, of "0.5", THEN conjunct2, rule_format, OF terrainStart_spawn,
        of obstaclesStart] d
    by simp
qed

text \<open>
  C4, as the claim states it, fails: at distance 0 (difficulty 0) the draw 0.8 spawns a
  gap, which is neither a wall nor a barrier.
\<close>

theorem early_game_gap_spawned:
  "difficultyAt 0 < 0.2 \<and> obstacles (snd spawnedGap) = [0]
   \<and> obs_type (obsObjs (fst spawnedGap) 0) = Gap
   \<and> obs_type (obsObjs (fst spawnedGap) 0) \<notin> {Wall, Barrier}"
  by (simp add: spawnedGap_eval difficultyAt_def)

text \<open>
  C6. \<open>clearObstacle\<close> on an obstacle that is cleared or clearing returns false and
  leaves the store and the obstacle system as they are. Otherwise it returns true, the
  obstacle is clearing, the counter is one higher, and a second call on the same obstacle
  returns false and changes nothing: two calls count once.
\<close>

theorem clearObstacle_idempotent:
  "(cleared (obsObjs st a) \<or> clearing (obsObjs st a)
      \<longrightarrow> clearObstacle a now (st, os) = (False, st, os))
   \<and> (\<not> cleared (obsObjs st a) \<and> \<not> clearing (obsObjs st a)
      \<longrightarrow> (\<exists>st' os'. clearObstacle a now (st, os) = (True, st', os')
             \<and> clearing (obsObjs st' a)
             \<and> obstaclesCleared os' = obstaclesCleared os + 1
             \<and> clearObstacle a now' (st', os') = (False, st', os')))"
  by (auto simp add: clearObstacle_def Let_def split: option.splits)

theorem clearObstacle_idempotent_witness:
  "\<not> cleared (obsObjs (fst spawnedGap) 0) \<and> \<not> clearing (obsObjs (fst spawnedGap) 0)
   \<and> (\<exists>st' os'. clearObstacle 0 1000 spawnedGap = (True, st', os')
         \<and> clearing (obsObjs st' 0)
         \<and> obstaclesCleared os' = 1
         \<and> clearObstacle 0 2000 (st', os') = (False, st', os'))"
proof -
  have n: "\<not> cleared (obsObjs (fst spawnedGap) 0) \<and> \<not> clearing (obsObjs (fst spawnedGap) 0)"
    by (simp add: spawnedGap_eval)
  have c: "obstaclesCleared (snd spawnedGap) = 0"
    unfolding spawnedGap_def spawnObstacle_found [OF terrainStart_spawn]
    by (simp add: obstaclesStart_def obstacleSystem_init_def)
  obtain st' os' where 1: "clearObstacle 0 1000 (fst spawnedGap, snd spawnedGap) = (True, st', os')"
    "clearing (obsObjs st' 0)" "obstaclesCleared os' = obstaclesCleared (snd spawnedGap) + 1"
    using clearObstacle_idempotent [of "fst spawnedGap" 0 1000 "snd spawnedGap", THEN conjunct2] n
    by blast
  have "clearObstacle 0 2000 (st', os') = (False, st', os')"
    using clearObstacle_idempotent [of st' 0 2000 os', THEN conjunct1] 1(2) by blast
  then show ?thesis using n 1 c by simp
qed


section \<open>Properties of the game\<close>

subsection \<open>What the terrain does to the store and to the camera\<close>

















subsection \<open>The leader's step and the obstacles of one update\<close>











subsection \<open>One update keeps the invariant of the world\<close>














subsection \<open>The taps and the buttons keep the invariant\<close>
















subsection \<open>Gap obstacles stay at the left end of their segment\<close>


















subsection \<open>The concrete run\<close>































end
